theory Spec2Isabelle
  imports Main
begin

section \<open>Python strings\<close>

text \<open>
  A Python \<^verbatim>\<open>str\<close> is modelled as a \<^typ>\<open>string\<close>: a list of characters, each
  character standing for the code point of the same number (the range 0..255).
  \<^verbatim>\<open>str.isspace\<close> holds in that range for the code points 9 to 13, 28 to 32,
  133 and 160.
\<close>

definition isspace :: "char \<Rightarrow> bool" where
  "isspace c =
     (let n = (of_char c :: nat)
      in (9 \<le> n \<and> n \<le> 13) \<or> (28 \<le> n \<and> n \<le> 32) \<or> n = 133 \<or> n = 160)"

text \<open>\<^verbatim>\<open>s.strip()\<close>: the whitespace of both ends is dropped.\<close>

definition strip :: "string \<Rightarrow> string" where
  "strip s = rev (dropWhile isspace (rev (dropWhile isspace s)))"

text \<open>\<^verbatim>\<open>s.startswith(p)\<close> and \<^verbatim>\<open>s.endswith(p)\<close>.\<close>

definition startswith :: "string \<Rightarrow> string \<Rightarrow> bool" where
  "startswith s p = (take (length p) s = p)"

definition endswith :: "string \<Rightarrow> string \<Rightarrow> bool" where
  "endswith s p = (length p \<le> length s \<and> drop (length s - length p) s = p)"

section \<open>Identifiers and platform URLs\<close>

definition BASE_URL_LOCATIONS_V4 :: string where
  "BASE_URL_LOCATIONS_V4 = ''https://mybusiness.googleapis.com/v4''"

text \<open>
  Lines 107 to 110 of \<^verbatim>\<open>fetch_gmb_reviews\<close> and 243 to 246 of
  \<^verbatim>\<open>post_review_reply\<close>: the prefix is added when the identifier does not
  start with it.
\<close>

definition normalize_account :: "string \<Rightarrow> string" where
  "normalize_account account_id =
     (if \<not> startswith account_id ''accounts/'' then ''accounts/'' @ account_id
      else account_id)"

definition normalize_location :: "string \<Rightarrow> string" where
  "normalize_location location_id =
     (if \<not> startswith location_id ''locations/'' then ''locations/'' @ location_id
      else location_id)"

text \<open>Line 122: the URL \<^verbatim>\<open>fetch_gmb_reviews\<close> requests.\<close>

definition reviews_url :: "string \<Rightarrow> string \<Rightarrow> string" where
  "reviews_url account_id location_id =
     BASE_URL_LOCATIONS_V4 @ ''/'' @ normalize_account account_id @ ''/''
       @ normalize_location location_id @ ''/reviews''"

text \<open>Line 247: the URL \<^verbatim>\<open>post_review_reply\<close> sends the reply to.\<close>

definition reply_url :: "string \<Rightarrow> string \<Rightarrow> string \<Rightarrow> string" where
  "reply_url account_id location_id review_id =
     BASE_URL_LOCATIONS_V4 @ ''/'' @ normalize_account account_id @ ''/''
       @ normalize_location location_id @ ''/reviews/'' @ review_id @ ''/reply''"

section \<open>Reviews and the eligible set\<close>

text \<open>
  A review as the platform returns it: a JSON object whose keys may be absent.
  \<open>displayName\<close> is the \<^verbatim>\<open>displayName\<close> of the \<^verbatim>\<open>reviewer\<close> object;
  \<open>reviewReply\<close> is the reply object, a dictionary of strings, when the key is there.
\<close>

record review =
  reviewId :: "string option"
  displayName :: "string option"
  starRating :: "string option"
  comment :: "string option"
  createTime :: "string option"
  reviewReply :: "(string \<times> string) list option"

text \<open>
  Line 264 (and again line 325): the truth value of
  \<^verbatim>\<open>not r.get("reviewReply") and r.get("comment", "").strip()\<close>.
  A missing key and an empty dictionary are both false in Python; a string is true
  when it is not empty.
\<close>

definition truthy_reply :: "(string \<times> string) list option \<Rightarrow> bool" where
  "truthy_reply v = (case v of None \<Rightarrow> False | Some kvs \<Rightarrow> kvs \<noteq> [])"

definition get_comment :: "review \<Rightarrow> string" where
  "get_comment r = (case comment r of None \<Rightarrow> [] | Some c \<Rightarrow> c)"

definition is_unreplied :: "review \<Rightarrow> bool" where
  "is_unreplied r = (\<not> truthy_reply (reviewReply r) \<and> strip (get_comment r) \<noteq> [])"

definition unreplied_reviews :: "review list \<Rightarrow> review list" where
  "unreplied_reviews reviews = filter is_unreplied reviews"

section \<open>The outside world\<close>

text \<open>
  JSON values as \<^verbatim>\<open>json.loads\<close> returns them. \<open>JObj\<close> holds the items of the
  dictionary, one per key. No code path looks into a number.
\<close>

datatype json =
    JNull
  | JBool bool
  | JNum int
  | JStr string
  | JArr "json list"
  | JObj "(string \<times> json) list"

text \<open>The exceptions the code raises; \<open>RuntimeError\<close> carries the start of its message.\<close>

datatype error =
    ValueError
  | OverflowError
  | KeyError
  | TypeError
  | JSONDecodeError
  | APIError
  | RuntimeError string

text \<open>One page of the reviews endpoint: \<^verbatim>\<open>data.get("reviews", [])\<close> and
  \<^verbatim>\<open>data.get("nextPageToken")\<close>.\<close>

record page =
  page_reviews :: "review list"
  nextPageToken :: "string option"

text \<open>
  What one GET of lines 125 to 140 comes to: a \<^verbatim>\<open>ClientResponseError\<close> with its
  status (raised by hand for 404, by \<^verbatim>\<open>raise_for_status\<close> for any other status
  from 400 on, by \<^verbatim>\<open>response.json()\<close> for a wrong content type), any other
  exception (no access token, a network failure, a timeout, a body that is not JSON),
  or the decoded page.
\<close>

datatype get_result = HttpError nat | Unexpected | Ok200 page

text \<open>
  Everything the program reads from outside, as functions of what it passes:
  \<^item> \<open>development\<close>: \<^verbatim>\<open>ENV == "development"\<close>;
  \<^item> \<open>utcnow\<close>: \<^verbatim>\<open>datetime.utcnow()\<close>, in microseconds since \<^verbatim>\<open>datetime.min\<close>;
  \<^item> \<open>strptime\<close>: \<^verbatim>\<open>datetime.strptime(s, "%Y-%m-%dT%H:%M:%S.%fZ")\<close> in the same
    unit, \<open>None\<close> where it raises;
  \<^item> \<open>session_get url token\<close>: the GET of the reviews page;
  \<^item> \<open>session_put url reply_text\<close>: the PUT of \<^verbatim>\<open>post_review_reply\<close>, true when
    nothing in its \<^verbatim>\<open>try\<close> block raises;
  \<^item> \<open>chat_completion prompt\<close>: \<^verbatim>\<open>response.choices[0].message.content\<close>, \<open>None\<close>
    where the call or the access raises;
  \<^item> \<open>json_loads\<close>: \<^verbatim>\<open>json.loads\<close>, \<open>None\<close> where it raises;
  \<^item> \<open>int_of_str\<close>: \<^verbatim>\<open>int\<close> on a string, \<open>None\<close> where it raises;
  \<^item> \<open>prompt_preamble\<close>: the fixed text of lines 167 to 198.
\<close>

record env =
  development :: bool
  utcnow :: int
  strptime :: "string \<Rightarrow> int option"
  session_get :: "string \<Rightarrow> string option \<Rightarrow> get_result"
  session_put :: "string \<Rightarrow> json \<Rightarrow> bool"
  chat_completion :: "string \<Rightarrow> string option"
  json_loads :: "string \<Rightarrow> json option"
  int_of_str :: "string \<Rightarrow> int option"
  prompt_preamble :: string

section \<open>fetch\_gmb\_reviews\<close>

text \<open>
  Line 118: \<^verbatim>\<open>datetime.utcnow() - timedelta(days=days_int)\<close>. \<^verbatim>\<open>timedelta\<close>
  raises \<^verbatim>\<open>OverflowError\<close> beyond 999999999 days, and so does the subtraction when
  the result leaves the years 1 to 9999.
\<close>

definition us_per_day :: int where
  "us_per_day = 86400000000"

definition max_datetime :: int where
  "max_datetime = 3652059 * us_per_day - 1"

definition cutoff_date :: "int \<Rightarrow> int \<Rightarrow> error + int" where
  "cutoff_date now days =
     (if \<bar>days\<bar> > 999999999 then Inl OverflowError
      else if now - days * us_per_day < 0 \<or> max_datetime < now - days * us_per_day
        then Inl OverflowError
      else Inr (now - days * us_per_day))"

text \<open>
  Lines 142 to 145: the list comprehension. \<^verbatim>\<open>review["createTime"]\<close> raises on a
  missing key and \<^verbatim>\<open>strptime\<close> on a malformed timestamp; either ends the
  comprehension (\<open>None\<close>).
\<close>

fun filter_reviews :: "(string \<Rightarrow> int option) \<Rightarrow> int \<Rightarrow> review list \<Rightarrow> review list option" where
  "filter_reviews parse cutoff [] = Some []"
| "filter_reviews parse cutoff (r # rs) =
     (case createTime r of
        None \<Rightarrow> None
      | Some s \<Rightarrow>
          (case parse s of
             None \<Rightarrow> None
           | Some t \<Rightarrow>
               (case filter_reviews parse cutoff rs of
                  None \<Rightarrow> None
                | Some kept \<Rightarrow> Some (if cutoff \<le> t then r # kept else kept))))"

text \<open>
  One pass through the body of \<^verbatim>\<open>while True\<close> (lines 122 to 157), given the page
  token and the reviews gathered so far: the loop raises, breaks with the final
  list, or goes on with the next token.
\<close>

datatype step = Raise error | Break "review list" | Continue string "review list"

definition fetch_step :: "env \<Rightarrow> string \<Rightarrow> int \<Rightarrow> string option \<Rightarrow> review list \<Rightarrow> step" where
  "fetch_step e url cutoff next_page_token reviews =
     (case session_get e url next_page_token of
        HttpError st \<Rightarrow> Raise (RuntimeError ''Failed to fetch reviews'')
      | Unexpected \<Rightarrow> Raise (RuntimeError ''Unexpected error fetching reviews'')
      | Ok200 data \<Rightarrow>
          (case filter_reviews (strptime e) cutoff (page_reviews data) of
             None \<Rightarrow> Raise (RuntimeError ''Unexpected error fetching reviews'')
           | Some filtered \<Rightarrow>
               (case nextPageToken data of
                  None \<Rightarrow> Break (reviews @ filtered)
                | Some t \<Rightarrow>
                    if t = [] \<or> filtered = [] then Break (reviews @ filtered)
                    else Continue t (reviews @ filtered))))"

text \<open>
  The loop itself. It has no bound of its own, so it is a partial function: \<open>None\<close>
  is the run that never leaves the loop. Beside the outcome it returns the responses
  it received, in order (one per pass).
\<close>

partial_function (option) fetch_loop ::
  "env \<Rightarrow> string \<Rightarrow> int \<Rightarrow> string option \<Rightarrow> review list \<Rightarrow> get_result list
     \<Rightarrow> (get_result list \<times> (error + review list)) option" where
  "fetch_loop e url cutoff next_page_token reviews received =
     (case fetch_step e url cutoff next_page_token reviews of
        Raise err \<Rightarrow> Some (received @ [session_get e url next_page_token], Inl err)
      | Break result \<Rightarrow> Some (received @ [session_get e url next_page_token], Inr result)
      | Continue t reviews' \<Rightarrow>
          fetch_loop e url cutoff (Some t) reviews'
            (received @ [session_get e url next_page_token]))"

declare fetch_loop.simps [code]

text \<open>
  \<^verbatim>\<open>fetch_gmb_reviews\<close> with \<open>days\<close> an integer already, as \<^verbatim>\<open>reply_reviews\<close>
  passes it (\<^verbatim>\<open>int\<close> of an integer is that integer).
\<close>

definition fetch_gmb_reviews ::
  "env \<Rightarrow> string \<Rightarrow> string \<Rightarrow> int \<Rightarrow> (get_result list \<times> (error + review list)) option" where
  "fetch_gmb_reviews e account_id location_id days =
     (if account_id = [] \<or> location_id = [] then Some ([], Inl ValueError)
      else
        (case cutoff_date (utcnow e) days of
           Inl err \<Rightarrow> Some ([], Inl err)
         | Inr cutoff \<Rightarrow>
             fetch_loop e (reviews_url account_id location_id) cutoff None [] []))"

section \<open>generate\_review\_replies\_batch\<close>

text \<open>\<^verbatim>\<open>range(i, stop, step)\<close> for a step that is not negative: empty when it is 0
  (the caller raises before, see below).\<close>

function range_step :: "nat \<Rightarrow> nat \<Rightarrow> nat \<Rightarrow> nat list" where
  "range_step i stop step =
     (if 0 < step \<and> i < stop then i # range_step (i + step) stop step else [])"
  by pat_completeness auto
termination
  by (relation "measure (\<lambda>(i, stop, step). stop - i)") auto

declare range_step.simps [simp del]

text \<open>Decimal digits of a number, as an f-string writes it.\<close>

function str_nat :: "nat \<Rightarrow> string" where
  "str_nat n =
     (if n < 10 then [char_of (48 + n)]
      else str_nat (n div 10) @ [char_of (48 + n mod 10)])"
  by pat_completeness auto
termination
  by (relation "measure id") auto

declare str_nat.simps [simp del]

text \<open>Lines 199 to 204: the line of the prompt for review number \<open>j\<close> (from 1) of the
  batch that starts at index \<open>i\<close>.\<close>

definition review_line :: "nat \<Rightarrow> nat \<Rightarrow> review \<Rightarrow> string" where
  "review_line i j r =
     str_nat j @ ''. Review ID: ''
       @ (case reviewId r of None \<Rightarrow> ''review_'' @ str_nat (i + j) | Some rid \<Rightarrow> rid)
       @ '', Reviewer Name: ''
       @ (case displayName r of None \<Rightarrow> ''Guest'' | Some n \<Rightarrow> n)
       @ '', Star Rating: ''
       @ (case starRating r of None \<Rightarrow> ''UNKNOWN'' | Some st \<Rightarrow> st)
       @ '', Text: '' @ get_comment r @ [CHR 0x0A]"

definition build_prompt :: "env \<Rightarrow> nat \<Rightarrow> review list \<Rightarrow> string" where
  "build_prompt e i batch =
     prompt_preamble e
       @ concat (map (\<lambda>(j, r). review_line i j r) (zip [1 ..< Suc (length batch)] batch))"

text \<open>Lines 217 to 220, under the comment \<^verbatim>\<open># Remove markdown or extra formatting\<close>.\<close>

definition strip_code_fence :: "string \<Rightarrow> string" where
  "strip_code_fence raw_content =
     (let raw1 = (if startswith raw_content ''```json'' then strip (drop 7 raw_content)
                  else raw_content)
      in if endswith raw1 ''```'' then strip (take (length raw1 - 3) raw1) else raw1)"

text \<open>
  What \<^verbatim>\<open>for reply in batch_replies\<close> and \<^verbatim>\<open>all_replies.extend(batch_replies)\<close>
  run over: the elements of a list, the keys of a dictionary, the characters of a
  string; anything else is not iterable (\<open>None\<close>).
\<close>

fun py_iter :: "json \<Rightarrow> json list option" where
  "py_iter (JArr xs) = Some xs"
| "py_iter (JObj kvs) = Some (map (\<lambda>kv. JStr (fst kv)) kvs)"
| "py_iter (JStr s) = Some (map (\<lambda>c. JStr [c]) s)"
| "py_iter v = None"

text \<open>Line 225: a dictionary that has both keys.\<close>

fun valid_reply :: "json \<Rightarrow> bool" where
  "valid_reply (JObj kvs) =
     (''review_id'' \<in> set (map fst kvs) \<and> ''reply_text'' \<in> set (map fst kvs))"
| "valid_reply v = False"

text \<open>The body of the \<^verbatim>\<open>try\<close> of lines 206 to 229 for one prompt: the exception it
  raises, or the replies it adds to \<^verbatim>\<open>all_replies\<close>.\<close>

definition generate_batch :: "env \<Rightarrow> string \<Rightarrow> error + json list" where
  "generate_batch e prompt =
     (case chat_completion e prompt of
        None \<Rightarrow> Inl APIError
      | Some content \<Rightarrow>
          (case json_loads e (strip_code_fence (strip content)) of
             None \<Rightarrow> Inl JSONDecodeError
           | Some batch_replies \<Rightarrow>
               (case py_iter batch_replies of
                  None \<Rightarrow> Inl TypeError
                | Some replies \<Rightarrow>
                    if list_all valid_reply replies then Inr replies else Inl ValueError)))"

text \<open>The \<^verbatim>\<open>for i in range(...)\<close> loop over the start indices still to do; both
  \<^verbatim>\<open>except\<close> clauses go on with the next batch.\<close>

fun generate_loop :: "env \<Rightarrow> review list \<Rightarrow> nat \<Rightarrow> nat list \<Rightarrow> json list \<Rightarrow> json list" where
  "generate_loop e reviews batch_size [] all_replies = all_replies"
| "generate_loop e reviews batch_size (i # rest) all_replies =
     (case generate_batch e (build_prompt e i (take batch_size (drop i reviews))) of
        Inl err \<Rightarrow> generate_loop e reviews batch_size rest all_replies
      | Inr batch_replies \<Rightarrow>
          generate_loop e reviews batch_size rest (all_replies @ batch_replies))"

text \<open>\<^verbatim>\<open>range\<close> raises \<^verbatim>\<open>ValueError\<close> for a step of 0 and is empty for a negative
  one.\<close>

definition generate_review_replies_batch :: "env \<Rightarrow> review list \<Rightarrow> int \<Rightarrow> error + json list" where
  "generate_review_replies_batch e reviews batch_size =
     (if batch_size = 0 then Inl ValueError
      else Inr (generate_loop e reviews (nat batch_size)
                  (range_step 0 (length reviews) (nat batch_size)) []))"

section \<open>post\_review\_reply and reply\_to\_unreplied\_reviews\<close>

definition post_review_reply :: "env \<Rightarrow> string \<Rightarrow> string \<Rightarrow> string \<Rightarrow> json \<Rightarrow> error option" where
  "post_review_reply e account_id location_id review_id reply_text =
     (if session_put e (reply_url account_id location_id review_id) reply_text then None
      else Some (RuntimeError ''Failed to post reply''))"

text \<open>\<^verbatim>\<open>reply["reply_text"]\<close>.\<close>

fun get_item :: "json \<Rightarrow> string \<Rightarrow> error + json" where
  "get_item (JObj kvs) k = (case map_of kvs k of None \<Rightarrow> Inl KeyError | Some v \<Rightarrow> Inr v)"
| "get_item v k = Inl TypeError"

text \<open>
  Lines 273 to 276: the loop over \<^verbatim>\<open>zip(unreplied_reviews, replies)\<close>. It returns
  the calls of \<^verbatim>\<open>post_review_reply\<close> made so far, each as the review id and the
  reply text, and the exception that ended the loop, if one did.
\<close>

fun publish_loop ::
  "env \<Rightarrow> string \<Rightarrow> string \<Rightarrow> (review \<times> json) list \<Rightarrow> (string \<times> json) list
     \<Rightarrow> (string \<times> json) list \<times> error option" where
  "publish_loop e account_id location_id [] posted = (posted, None)"
| "publish_loop e account_id location_id ((r, reply) # rest) posted =
     (case reviewId r of
        None \<Rightarrow> (posted, Some KeyError)
      | Some review_id \<Rightarrow>
          (case get_item reply ''reply_text'' of
             Inl err \<Rightarrow> (posted, Some err)
           | Inr reply_text \<Rightarrow>
               (case post_review_reply e account_id location_id review_id reply_text of
                  Some err \<Rightarrow> (posted @ [(review_id, reply_text)], Some err)
                | None \<Rightarrow>
                    publish_loop e account_id location_id rest
                      (posted @ [(review_id, reply_text)]))))"

text \<open>Lines 262 to 280; the \<^verbatim>\<open>except\<close> clause logs and raises again.\<close>

definition reply_to_unreplied_reviews ::
  "env \<Rightarrow> review list \<Rightarrow> string \<Rightarrow> string \<Rightarrow> (string \<times> json) list \<times> error option" where
  "reply_to_unreplied_reviews e reviews account_id location_id =
     (if unreplied_reviews reviews = [] then ([], None)
      else
        (case generate_review_replies_batch e (unreplied_reviews reviews) 10 of
           Inl err \<Rightarrow> ([], Some err)
         | Inr replies \<Rightarrow>
             publish_loop e account_id location_id
               (zip (unreplied_reviews reviews) replies) []))"

section \<open>The entry point reply\_reviews\<close>

record request =
  req_method :: string
  x_forwarded_proto :: "string option"
  arg_account_id :: "string option"
  arg_location_id :: "string option"
  arg_days :: "string option"

text \<open>The JSON body of a response; \<open>Processed n\<close> is
  \<^verbatim>\<open>{"status": "Processed n unreplied reviews"}\<close>, \<open>ErrorRaised\<close> the body made of
  \<^verbatim>\<open>str(e)\<close>.\<close>

datatype body =
    Empty
  | HttpsRequired
  | Processed nat
  | ErrorMessage string
  | ErrorRaised error

record response =
  status :: nat
  body :: body
  cors :: bool

text \<open>
  Lines 315 to 325, once both identifiers are known to be there. The result is
  \<open>None\<close> when the fetch never returns; otherwise the response, and the calls of
  \<^verbatim>\<open>post_review_reply\<close> the run made.
\<close>

definition process_reviews ::
  "env \<Rightarrow> string \<Rightarrow> string \<Rightarrow> string \<Rightarrow> (response \<times> (string \<times> json) list) option" where
  "process_reviews e account_id location_id days =
     (case int_of_str e days of
        None \<Rightarrow>
          Some (\<lparr>status = 400, body = ErrorMessage ''Days must be an integer'',
                 cors = True\<rparr>, [])
      | Some days_int \<Rightarrow>
          (case fetch_gmb_reviews e account_id location_id days_int of
             None \<Rightarrow> None
           | Some (received, Inl err) \<Rightarrow>
               Some (\<lparr>status = 500, body = ErrorRaised err, cors = True\<rparr>, [])
           | Some (received, Inr reviews) \<Rightarrow>
               (case reply_to_unreplied_reviews e reviews account_id location_id of
                  (posted, Some err) \<Rightarrow>
                    Some (\<lparr>status = 500, body = ErrorRaised err, cors = True\<rparr>, posted)
                | (posted, None) \<Rightarrow>
                    Some (\<lparr>status = 200,
                           body = Processed (length (unreplied_reviews reviews)),
                           cors = True\<rparr>, posted))))"

text \<open>
  Lines 284 to 328. \<^verbatim>\<open>not account_id\<close> holds for an argument that is absent or
  empty; \<^verbatim>\<open>days\<close> defaults to \<^verbatim>\<open>"1"\<close>.
\<close>

definition reply_reviews :: "env \<Rightarrow> request \<Rightarrow> (response \<times> (string \<times> json) list) option" where
  "reply_reviews e request =
     (if development e
         \<and> (case x_forwarded_proto request of None \<Rightarrow> ''http'' | Some p \<Rightarrow> p) \<noteq> ''https''
      then Some (\<lparr>status = 301, body = HttpsRequired, cors = False\<rparr>, [])
      else if req_method request = ''OPTIONS''
      then Some (\<lparr>status = 204, body = Empty, cors = True\<rparr>, [])
      else
        (case (arg_account_id request, arg_location_id request) of
           (Some account_id, Some location_id) \<Rightarrow>
             if account_id = [] \<or> location_id = []
             then Some (\<lparr>status = 400,
                         body = ErrorMessage ''account_id and location_id are required'',
                         cors = True\<rparr>, [])
             else process_reviews e account_id location_id
                    (case arg_days request of None \<Rightarrow> ''1'' | Some d \<Rightarrow> d)
         | _ \<Rightarrow>
             Some (\<lparr>status = 400,
                    body = ErrorMessage ''account_id and location_id are required'',
                    cors = True\<rparr>, [])))"

section \<open>Notions the properties are stated with\<close>

text \<open>A review lies in the time window when its timestamp parses and is not before
  the cutoff.\<close>

definition in_window :: "(string \<Rightarrow> int option) \<Rightarrow> int \<Rightarrow> review \<Rightarrow> bool" where
  "in_window parse cutoff r =
     (case createTime r of
        None \<Rightarrow> False
      | Some s \<Rightarrow> (case parse s of None \<Rightarrow> False | Some t \<Rightarrow> cutoff \<le> t))"

text \<open>The reviews of the pages among the responses received.\<close>

definition received_reviews :: "get_result list \<Rightarrow> review list" where
  "received_reviews received =
     concat (map (\<lambda>g. case g of Ok200 data \<Rightarrow> page_reviews data | _ \<Rightarrow> []) received)"

text \<open>
  The feed as paging alone walks it, with no regard to the time window: the first
  \<open>n\<close> pages reached from a token by following \<^verbatim>\<open>nextPageToken\<close>, up to a failed
  request or a page without a token.
\<close>

fun feed_pages :: "env \<Rightarrow> string \<Rightarrow> nat \<Rightarrow> string option \<Rightarrow> page list" where
  "feed_pages e url 0 tok = []"
| "feed_pages e url (Suc n) tok =
     (case session_get e url tok of
        Ok200 data \<Rightarrow>
          data # (case nextPageToken data of
                    None \<Rightarrow> []
                  | Some t \<Rightarrow> if t = [] then [] else feed_pages e url n (Some t))
      | _ \<Rightarrow> [])"

definition in_window_count :: "(string \<Rightarrow> int option) \<Rightarrow> int \<Rightarrow> page list \<Rightarrow> nat" where
  "in_window_count parse cutoff pages =
     length (filter (in_window parse cutoff) (concat (map page_reviews pages)))"

text \<open>Lines 165 and 166: the batches, one per start index.\<close>

definition batches_of :: "'a list \<Rightarrow> nat \<Rightarrow> 'a list list" where
  "batches_of reviews batch_size =
     map (\<lambda>i. take batch_size (drop i reviews)) (range_step 0 (length reviews) batch_size)"

text \<open>What the batch that starts at index \<open>i\<close> adds to \<^verbatim>\<open>all_replies\<close>: nothing when
  its \<^verbatim>\<open>try\<close> block raises.\<close>

definition batch_replies :: "env \<Rightarrow> nat \<times> review list \<Rightarrow> json list" where
  "batch_replies e b =
     (case generate_batch e (build_prompt e (fst b) (snd b)) of
        Inl err \<Rightarrow> []
      | Inr replies \<Rightarrow> replies)"

text \<open>Lines 274 and 275: the review id and the reply text of a pair, when both
  subscripts succeed.\<close>

definition pair_call :: "review \<times> json \<Rightarrow> (string \<times> json) option" where
  "pair_call p =
     (case reviewId (fst p) of
        None \<Rightarrow> None
      | Some review_id \<Rightarrow>
          (case get_item (snd p) ''reply_text'' of
             Inl err \<Rightarrow> None
           | Inr reply_text \<Rightarrow> Some (review_id, reply_text)))"

text \<open>The pair is published without an exception.\<close>

definition publish_ok :: "env \<Rightarrow> string \<Rightarrow> string \<Rightarrow> review \<times> json \<Rightarrow> bool" where
  "publish_ok e account_id location_id p =
     (case pair_call p of
        None \<Rightarrow> False
      | Some (review_id, reply_text) \<Rightarrow>
          session_put e (reply_url account_id location_id review_id) reply_text)"

section \<open>Example worlds\<close>

text \<open>
  Five reviews: two that await a reply, one replied to, one with a blank comment, one
  from five days before. The timestamps are those of \<^verbatim>\<open>strptime\<close> on the three
  strings, and the clock stands at 2024-01-10 12:00:00.
\<close>

definition review_jane :: review where
  "review_jane = \<lparr>reviewId = Some ''r1'', displayName = Some ''Jane Doe'',
     starRating = Some ''FIVE'', comment = Some ''Great food!'',
     createTime = Some ''2024-01-10T09:00:00.000000Z'', reviewReply = None\<rparr>"

definition review_slow :: review where
  "review_slow = \<lparr>reviewId = Some ''r2'', displayName = Some ''??x99'',
     starRating = Some ''ONE'', comment = Some ''Slow service'',
     createTime = Some ''2024-01-09T18:30:00.500000Z'', reviewReply = None\<rparr>"

definition review_replied :: review where
  "review_replied = \<lparr>reviewId = Some ''r3'', displayName = Some ''Ann'',
     starRating = Some ''FOUR'', comment = Some ''Great!'',
     createTime = Some ''2024-01-10T09:00:00.000000Z'',
     reviewReply = Some [(''comment'', ''Thank you!'')]\<rparr>"

definition review_blank :: review where
  "review_blank = \<lparr>reviewId = Some ''r4'', displayName = None,
     starRating = Some ''THREE'', comment = Some ''  '',
     createTime = Some ''2024-01-09T18:30:00.500000Z'', reviewReply = None\<rparr>"

definition review_old :: review where
  "review_old = \<lparr>reviewId = Some ''r5'', displayName = Some ''Bob'',
     starRating = Some ''TWO'', comment = Some ''Meh'',
     createTime = Some ''2024-01-05T08:00:00.000000Z'', reviewReply = None\<rparr>"

definition example_strptime :: "string \<Rightarrow> int option" where
  "example_strptime s =
     (if s = ''2024-01-10T09:00:00.000000Z'' then Some 63840474000000000
      else if s = ''2024-01-09T18:30:00.500000Z'' then Some 63840421800500000
      else if s = ''2024-01-05T08:00:00.000000Z'' then Some 63840038400000000
      else None)"

definition example_url :: string where
  "example_url = ''https://mybusiness.googleapis.com/v4/accounts/1/locations/2/reviews''"

definition page_one :: page where
  "page_one = \<lparr>page_reviews = [review_jane, review_replied], nextPageToken = Some ''p2''\<rparr>"

definition page_two :: page where
  "page_two = \<lparr>page_reviews = [review_slow, review_blank, review_old],
     nextPageToken = Some ''p3''\<rparr>"

definition page_three :: page where
  "page_three = \<lparr>page_reviews = [review_old], nextPageToken = Some ''p4''\<rparr>"

text \<open>A feed of three pages; the third page still names a fourth, which the server
  does not have.\<close>

definition example_get :: "string \<Rightarrow> string option \<Rightarrow> get_result" where
  "example_get url token =
     (if url \<noteq> example_url then HttpError 404
      else
        (case token of
           None \<Rightarrow> Ok200 page_one
         | Some t \<Rightarrow>
             if t = ''p2'' then Ok200 page_two
             else if t = ''p3'' then Ok200 page_three
             else Unexpected))"

definition example_raw :: string where
  \<open>example_raw =
     ''```json [{"review_id":"r1","reply_text":"Thanks"},{"review_id":"r2","reply_text":"Sorry"}] ```''\<close>

definition draft_thanks :: json where
  "draft_thanks = JObj [(''review_id'', JStr ''r1''), (''reply_text'', JStr ''Thanks'')]"

definition draft_sorry :: json where
  "draft_sorry = JObj [(''review_id'', JStr ''r2''), (''reply_text'', JStr ''Sorry'')]"

definition draft_noted :: json where
  "draft_noted = JObj [(''review_id'', JStr ''r5''), (''reply_text'', JStr ''Noted'')]"

text \<open>The tables below hold the values of \<^verbatim>\<open>json.loads\<close>, \<^verbatim>\<open>strptime\<close> and
  \<^verbatim>\<open>int\<close> on the strings that the examples pass to them; on every other string
  that an example passes, the Python function raises.\<close>

definition example_json_loads :: "string \<Rightarrow> json option" where
  \<open>example_json_loads s =
     (if s = ''[{"review_id":"r1","reply_text":"Thanks"},{"review_id":"r2","reply_text":"Sorry"}]''
      then Some (JArr [draft_thanks, draft_sorry])
      else if s = ''[{"review_id":"x","reply_text":"a"},{"review_id":"x","reply_text":"b"}]''
      then Some (JArr [JObj [(''review_id'', JStr ''x''), (''reply_text'', JStr ''a'')],
                       JObj [(''review_id'', JStr ''x''), (''reply_text'', JStr ''b'')]])
      else if s = ''[{"review_id":"r1","reply_text":"Thanks"}]''
      then Some (JArr [draft_thanks])
      else if s = ''[{"review_id":"r5","reply_text":"Noted"}]''
      then Some (JArr [draft_noted])
      else None)\<close>

definition example_int :: "string \<Rightarrow> int option" where
  "example_int s =
     (if s = ''1'' then Some 1
      else if s = ''0'' then Some 0
      else if s = ''-3'' then Some (- 3)
      else None)"

definition example_world :: env where
  "example_world = \<lparr>development = False, utcnow = 63840484800000000,
     strptime = example_strptime, session_get = example_get,
     session_put = (\<lambda>url reply_text. True),
     chat_completion = (\<lambda>prompt. Some example_raw),
     json_loads = example_json_loads, int_of_str = example_int,
     prompt_preamble = ''Reviews to Process:''\<rparr>"

definition example_request :: request where
  "example_request = \<lparr>req_method = ''GET'', x_forwarded_proto = None,
     arg_account_id = Some ''1'', arg_location_id = Some ''2'', arg_days = None\<rparr>"

text \<open>The same world with a platform that refuses the reply to review \<open>r1\<close>.\<close>

definition refusing_world :: env where
  "refusing_world = example_world
     \<lparr>session_put := (\<lambda>url reply_text. url \<noteq> reply_url ''1'' ''2'' ''r1'')\<rparr>"

text \<open>The same world with a generation service that fails.\<close>

definition silent_world :: env where
  "silent_world = example_world \<lparr>chat_completion := (\<lambda>prompt. None)\<rparr>"

text \<open>The same world with a generation service that answers every prompt with two
  replies for a review \<open>x\<close>.\<close>

definition doubling_world :: env where
  \<open>doubling_world = example_world
     \<lparr>chat_completion :=
        (\<lambda>prompt. Some ''[{"review_id":"x","reply_text":"a"},{"review_id":"x","reply_text":"b"}]'')\<rparr>\<close>

text \<open>The same world with a generation service that answers the prompt of the batch
  made of the old review alone, at index 2, with one reply, and every other prompt as
  before.\<close>

definition ordered_world :: env where
  \<open>ordered_world = example_world
     \<lparr>chat_completion :=
        (\<lambda>prompt. if prompt = build_prompt example_world 2 [review_old]
                  then Some ''[{"review_id":"r5","reply_text":"Noted"}]''
                  else Some example_raw)\<rparr>\<close>

text \<open>The same world with a generation service that wraps its answer in a fence
  without a language tag, on lines of its own.\<close>

definition untagged_raw :: string where
  \<open>untagged_raw =
     ''```'' @ [CHR 0x0A] @ ''[{"review_id":"r1","reply_text":"Thanks"}]'' @ [CHR 0x0A] @ ''```''\<close>

definition untagged_world :: env where
  "untagged_world = example_world \<lparr>chat_completion := (\<lambda>prompt. Some untagged_raw)\<rparr>"

text \<open>A feed that never ends: every request is answered with a fresh review and a
  token for the next page.\<close>

definition endless_world :: env where
  "endless_world = example_world
     \<lparr>session_get :=
        (\<lambda>url token. Ok200 \<lparr>page_reviews = [review_jane], nextPageToken = Some ''next''\<rparr>)\<rparr>"

section \<open>Normalisation of identifiers\<close>

lemma normalize_account_idem:
  "normalize_account (normalize_account a) = normalize_account a"
  by (simp add: normalize_account_def startswith_def)

lemma normalize_location_idem:
  "normalize_location (normalize_location l) = normalize_location l"
  by (simp add: normalize_location_def startswith_def)

lemma normalize_account_bare:
  "\<not> startswith a ''accounts/'' \<Longrightarrow> normalize_account (''accounts/'' @ a) = normalize_account a"
  by (simp add: normalize_account_def startswith_def)

lemma normalize_location_bare:
  "\<not> startswith l ''locations/'' \<Longrightarrow>
     normalize_location (''locations/'' @ l) = normalize_location l"
  by (simp add: normalize_location_def startswith_def)

text \<open>
  Claim C10. Normalisation is idempotent: normalised identifiers give the URL of the
  identifiers as passed. So both functions build the same URL for an identifier passed
  bare (not starting with its prefix) and for the same identifier passed in prefixed
  form: the account identifier \<open>a\<close> against \<open>accounts/a\<close>, the location identifier
  \<open>l\<close> against \<open>locations/l\<close>, in every combination.
\<close>

theorem normalization_idempotent_same_url:
  assumes "\<not> startswith a ''accounts/''" and "\<not> startswith l ''locations/''"
  shows "normalize_account (normalize_account a) = normalize_account a
       \<and> normalize_location (normalize_location l) = normalize_location l
       \<and> reviews_url (normalize_account a) (normalize_location l) = reviews_url a l
       \<and> reply_url (normalize_account a) (normalize_location l) r = reply_url a l r
       \<and> reviews_url (''accounts/'' @ a) l = reviews_url a l
       \<and> reviews_url a (''locations/'' @ l) = reviews_url a l
       \<and> reviews_url (''accounts/'' @ a) (''locations/'' @ l) = reviews_url a l
       \<and> reply_url (''accounts/'' @ a) l r = reply_url a l r
       \<and> reply_url a (''locations/'' @ l) r = reply_url a l r
       \<and> reply_url (''accounts/'' @ a) (''locations/'' @ l) r = reply_url a l r"
proof -
  have acc: "normalize_account (''accounts/'' @ a) = normalize_account a"
    using assms(1) by (rule normalize_account_bare)
  have loc: "normalize_location (''locations/'' @ l) = normalize_location l"
    using assms(2) by (rule normalize_location_bare)
  show ?thesis
    unfolding reviews_url_def reply_url_def acc loc
    by (simp add: normalize_account_idem normalize_location_idem)
qed

theorem normalization_idempotent_same_url_witness:
  "reviews_url ''accounts/123'' ''locations/456'' = reviews_url ''123'' ''456''
   \<and> reviews_url ''123'' ''456''
       = ''https://mybusiness.googleapis.com/v4/accounts/123/locations/456/reviews''
   \<and> reply_url ''accounts/123'' ''locations/456'' ''r1'' = reply_url ''123'' ''456'' ''r1''
   \<and> reply_url ''123'' ''456'' ''r1''
       = ''https://mybusiness.googleapis.com/v4/accounts/123/locations/456/reviews/r1/reply''"
proof -
  have a: "\<not> startswith ''123'' ''accounts/''" by (simp add: startswith_def)
  have l: "\<not> startswith ''456'' ''locations/''" by (simp add: startswith_def)
  have "reviews_url ''123'' ''456''
       = ''https://mybusiness.googleapis.com/v4/accounts/123/locations/456/reviews''"
    by (simp add: reviews_url_def normalize_account_def normalize_location_def
        startswith_def BASE_URL_LOCATIONS_V4_def)
  moreover have "reply_url ''123'' ''456'' ''r1''
       = ''https://mybusiness.googleapis.com/v4/accounts/123/locations/456/reviews/r1/reply''"
    by (simp add: reply_url_def normalize_account_def normalize_location_def
        startswith_def BASE_URL_LOCATIONS_V4_def)
  ultimately show ?thesis
    using normalization_idempotent_same_url [OF a l, of "''r1''"] by simp
qed

section \<open>The fetch loop\<close>

lemma filter_reviews_Some:
  "filter_reviews parse cutoff rs = Some kept \<Longrightarrow>
     kept = filter (in_window parse cutoff) rs
     \<and> (\<forall>r\<in>set rs. \<exists>s t. createTime r = Some s \<and> parse s = Some t)"
proof (induction rs arbitrary: kept)
  case Nil
  then show ?case by simp
next
  case (Cons r rs)
  from Cons.prems obtain s t kept' where
    s: "createTime r = Some s" and t: "parse s = Some t"
    and rest: "filter_reviews parse cutoff rs = Some kept'"
    and kept: "kept = (if cutoff \<le> t then r # kept' else kept')"
    by (auto split: option.splits)
  from Cons.IH [OF rest] s t kept show ?case
    by (auto simp: in_window_def)
qed

lemma fetch_step_Break:
  "fetch_step e url cutoff tok reviews = Break result \<Longrightarrow>
     \<exists>data filtered. session_get e url tok = Ok200 data
       \<and> filter_reviews (strptime e) cutoff (page_reviews data) = Some filtered
       \<and> result = reviews @ filtered
       \<and> (nextPageToken data = None \<or> nextPageToken data = Some [] \<or> filtered = [])"
  by (auto simp: fetch_step_def split: get_result.splits option.splits if_splits)

lemma fetch_step_Continue:
  "fetch_step e url cutoff tok reviews = Continue t reviews' \<Longrightarrow>
     \<exists>data filtered. session_get e url tok = Ok200 data
       \<and> filter_reviews (strptime e) cutoff (page_reviews data) = Some filtered
       \<and> reviews' = reviews @ filtered
       \<and> nextPageToken data = Some t \<and> t \<noteq> [] \<and> filtered \<noteq> []"
  by (auto simp: fetch_step_def split: get_result.splits option.splits if_splits)

text \<open>What the loop returns, by induction on its unfolding: the responses it adds, and
  for a normal return the reviews it adds.\<close>

lemma fetch_loop_result:
  assumes "fetch_loop e url cutoff tok reviews received = Some out"
  shows "\<exists>new. fst out = received @ new \<and> new \<noteq> []
       \<and> (\<forall>result. snd out = Inr result \<longrightarrow>
             result = reviews @ filter (in_window (strptime e) cutoff) (received_reviews new)
             \<and> (\<forall>r\<in>set (received_reviews new).
                   \<exists>s t. createTime r = Some s \<and> strptime e s = Some t))"
  using assms
proof (induction e url cutoff tok reviews received out
    rule: fetch_loop.raw_induct [rotated 1, consumes 1])
  case (1 loop e url cutoff tok reviews received out)
  show ?case
  proof (cases "fetch_step e url cutoff tok reviews")
    case (Raise err)
    with 1(2) show ?thesis by auto
  next
    case (Break result)
    from fetch_step_Break [OF Break] obtain data filtered where
      g: "session_get e url tok = Ok200 data"
      and f: "filter_reviews (strptime e) cutoff (page_reviews data) = Some filtered"
      and r: "result = reviews @ filtered" by blast
    from Break 1(2) have out: "out = (received @ [Ok200 data], Inr result)"
      by (simp add: g)
    from filter_reviews_Some [OF f] r out show ?thesis
      by (auto simp: received_reviews_def)
  next
    case (Continue t reviews')
    from fetch_step_Continue [OF Continue] obtain data filtered where
      g: "session_get e url tok = Ok200 data"
      and f: "filter_reviews (strptime e) cutoff (page_reviews data) = Some filtered"
      and r: "reviews' = reviews @ filtered" by blast
    from Continue 1(2)
    have "loop e url cutoff (Some t) reviews' (received @ [Ok200 data]) = Some out"
      by (simp add: g)
    from 1(1) [OF this] obtain new where
      new: "fst out = (received @ [Ok200 data]) @ new"
      and res: "\<forall>result. snd out = Inr result \<longrightarrow>
             result = reviews' @ filter (in_window (strptime e) cutoff) (received_reviews new)
             \<and> (\<forall>r\<in>set (received_reviews new).
                   \<exists>s t. createTime r = Some s \<and> strptime e s = Some t)"
      by blast
    have "fst out = received @ (Ok200 data # new)" using new by simp
    moreover have "\<forall>result. snd out = Inr result \<longrightarrow>
             result = reviews
                @ filter (in_window (strptime e) cutoff) (received_reviews (Ok200 data # new))
             \<and> (\<forall>r\<in>set (received_reviews (Ok200 data # new)).
                   \<exists>s t. createTime r = Some s \<and> strptime e s = Some t)"
      using res r filter_reviews_Some [OF f] by (auto simp: received_reviews_def)
    ultimately show ?thesis by blast
  qed
qed

lemma fetch_gmb_reviews_cutoff:
  assumes "fetch_gmb_reviews e account_id location_id days = Some (received, Inr reviews)"
  shows "fetch_loop e (reviews_url account_id location_id) (utcnow e - days * us_per_day)
           None [] [] = Some (received, Inr reviews)"
  using assms
  by (auto simp: fetch_gmb_reviews_def cutoff_date_def split: if_splits sum.splits)

text \<open>
  Claim C3. When \<^verbatim>\<open>fetch_gmb_reviews\<close> returns a list, that list is exactly the
  reviews of the fetched pages whose \<^verbatim>\<open>createTime\<close> is not before
  \<^verbatim>\<open>utcnow - days\<close>, in the order of the feed: every returned review has such a
  timestamp, and no fetched review with an earlier timestamp is returned. This holds
  for every \<open>days\<close>, positive or not.
\<close>

theorem fetched_reviews_within_window:
  assumes "fetch_gmb_reviews e account_id location_id days = Some (received, Inr reviews)"
  shows "reviews = filter (in_window (strptime e) (utcnow e - days * us_per_day))
                     (received_reviews received)
       \<and> (\<forall>r\<in>set reviews. \<exists>s t. createTime r = Some s \<and> strptime e s = Some t
              \<and> utcnow e - days * us_per_day \<le> t)
       \<and> (\<forall>r\<in>set (received_reviews received). \<forall>s t.
              createTime r = Some s \<and> strptime e s = Some t
                \<and> t < utcnow e - days * us_per_day \<longrightarrow> r \<notin> set reviews)"
proof -
  let ?cutoff = "utcnow e - days * us_per_day"
  from fetch_loop_result [OF fetch_gmb_reviews_cutoff [OF assms]]
  have eq: "reviews = filter (in_window (strptime e) ?cutoff) (received_reviews received)"
    by simp
  have inside: "\<exists>s t. createTime r = Some s \<and> strptime e s = Some t \<and> ?cutoff \<le> t"
    if "r \<in> set reviews" for r
  proof -
    from that eq have "in_window (strptime e) ?cutoff r" by simp
    then show ?thesis by (auto simp: in_window_def split: option.splits)
  qed
  have outside: "r \<notin> set reviews"
    if "createTime r = Some s" and "strptime e s = Some t" and "t < ?cutoff" for r s t
  proof
    assume "r \<in> set reviews"
    from inside [OF this] that show False by auto
  qed
  from eq inside outside show ?thesis by blast
qed

theorem fetched_reviews_within_window_witness:
  "fetch_gmb_reviews example_world ''1'' ''2'' 1
     = Some ([Ok200 page_one, Ok200 page_two, Ok200 page_three],
             Inr [review_jane, review_replied, review_slow, review_blank])
   \<and> [review_jane, review_replied, review_slow, review_blank]
       = filter (in_window (strptime example_world) (utcnow example_world - 1 * us_per_day))
           (received_reviews [Ok200 page_one, Ok200 page_two, Ok200 page_three])
   \<and> review_old \<in> set (received_reviews [Ok200 page_one, Ok200 page_two, Ok200 page_three])
   \<and> review_old \<notin> set [review_jane, review_replied, review_slow, review_blank]"
proof -
  have run: "fetch_gmb_reviews example_world ''1'' ''2'' 1
     = Some ([Ok200 page_one, Ok200 page_two, Ok200 page_three],
             Inr [review_jane, review_replied, review_slow, review_blank])"
    by code_simp
  have old: "review_old \<in> set (received_reviews [Ok200 page_one, Ok200 page_two, Ok200 page_three])"
    by (simp add: received_reviews_def page_two_def)
  have "review_old \<notin> set [review_jane, review_replied, review_slow, review_blank]"
    by (simp add: review_old_def review_jane_def review_replied_def review_slow_def
        review_blank_def)
  with run old fetched_reviews_within_window [OF run] show ?thesis by simp
qed

section \<open>Termination of the fetch loop\<close>

lemma feed_pages_first:
  assumes "session_get e url tok = Ok200 data" and "nextPageToken data = Some t" and "t \<noteq> []"
  shows "feed_pages e url (Suc n) tok = data # feed_pages e url n (Some t)"
  using assms by simp

text \<open>A pass that goes on has added a review of the window, so a feed with at most \<open>k\<close>
  such reviews lets the loop go on at most \<open>k\<close> times.\<close>

lemma fetch_loop_bounded:
  assumes "\<forall>n. in_window_count (strptime e) cutoff (feed_pages e url n tok) \<le> k"
  shows "\<exists>received' out. fetch_loop e url cutoff tok reviews received = Some (received', out)
           \<and> length received' \<le> length received + k + 1"
  using assms
proof (induction k arbitrary: tok reviews received)
  case 0
  show ?case
  proof (cases "fetch_step e url cutoff tok reviews")
    case (Raise err)
    then show ?thesis by (subst fetch_loop.simps) simp
  next
    case (Break result)
    then show ?thesis by (subst fetch_loop.simps) simp
  next
    case (Continue t reviews')
    from fetch_step_Continue [OF Continue] obtain data filtered where
      g: "session_get e url tok = Ok200 data"
      and f: "filter_reviews (strptime e) cutoff (page_reviews data) = Some filtered"
      and tk: "nextPageToken data = Some t" "t \<noteq> []" and ne: "filtered \<noteq> []" by blast
    have fp: "feed_pages e url (Suc 0) tok = [data]"
      using g tk by simp
    have "in_window_count (strptime e) cutoff (feed_pages e url (Suc 0) tok) = length filtered"
      unfolding fp in_window_count_def using filter_reviews_Some [OF f] by simp
    with "0.prems" ne show ?thesis by (metis le_zero_eq length_0_conv)
  qed
next
  case (Suc k)
  show ?case
  proof (cases "fetch_step e url cutoff tok reviews")
    case (Raise err)
    then show ?thesis by (subst fetch_loop.simps) simp
  next
    case (Break result)
    then show ?thesis by (subst fetch_loop.simps) simp
  next
    case (Continue t reviews')
    from fetch_step_Continue [OF Continue] obtain data filtered where
      g: "session_get e url tok = Ok200 data"
      and f: "filter_reviews (strptime e) cutoff (page_reviews data) = Some filtered"
      and tk: "nextPageToken data = Some t" "t \<noteq> []" and ne: "filtered \<noteq> []" by blast
    have rest: "\<forall>n. in_window_count (strptime e) cutoff (feed_pages e url n (Some t)) \<le> k"
    proof
      fix n
      have "in_window_count (strptime e) cutoff (feed_pages e url (Suc n) tok)
              = length filtered
                + in_window_count (strptime e) cutoff (feed_pages e url n (Some t))"
        unfolding feed_pages_first [OF g tk] in_window_count_def
        using filter_reviews_Some [OF f] by simp
      moreover have "0 < length filtered" using ne by simp
      moreover have "in_window_count (strptime e) cutoff (feed_pages e url (Suc n) tok) \<le> Suc k"
        using Suc.prems by blast
      ultimately show "in_window_count (strptime e) cutoff (feed_pages e url n (Some t)) \<le> k"
        by linarith
    qed
    from Suc.IH [OF rest, of reviews' "received @ [session_get e url tok]"]
    obtain received' out where
      "fetch_loop e url cutoff (Some t) reviews' (received @ [session_get e url tok])
         = Some (received', out)"
      and "length received' \<le> length (received @ [session_get e url tok]) + k + 1"
      by blast
    with Continue show ?thesis by (subst fetch_loop.simps) simp
  qed
qed

lemma fetch_gmb_reviews_bounded:
  assumes "\<forall>n. in_window_count (strptime e) (utcnow e - days * us_per_day)
                 (feed_pages e (reviews_url account_id location_id) n None) \<le> k"
  shows "\<exists>received out. fetch_gmb_reviews e account_id location_id days = Some (received, out)
           \<and> length received \<le> k + 1"
proof (cases "account_id = [] \<or> location_id = []")
  case True
  then show ?thesis by (simp add: fetch_gmb_reviews_def)
next
  case ids: False
  show ?thesis
  proof (cases "cutoff_date (utcnow e) days")
    case (Inl err)
    with ids show ?thesis by (simp add: fetch_gmb_reviews_def)
  next
    case (Inr cutoff)
    then have c: "cutoff = utcnow e - days * us_per_day"
      by (simp add: cutoff_date_def split: if_splits)
    from fetch_loop_bounded [OF assms, of "[]" "[]"] ids Inr c show ?thesis
      by (simp add: fetch_gmb_reviews_def)
  qed
qed

lemma fetch_step_exit:
  assumes "session_get e url tok = Ok200 data"
    and "filter_reviews (strptime e) cutoff (page_reviews data) = Some filtered"
  shows "(\<exists>result. fetch_step e url cutoff tok reviews = Break result)
           \<longleftrightarrow> (nextPageToken data = None \<or> nextPageToken data = Some [] \<or> filtered = [])"
    and "(\<exists>t reviews'. fetch_step e url cutoff tok reviews = Continue t reviews')
           \<longleftrightarrow> \<not> (nextPageToken data = None \<or> nextPageToken data = Some [] \<or> filtered = [])"
  using assms by (auto simp: fetch_step_def split: option.splits)

text \<open>In the endless world every pass goes on.\<close>

lemma endless_loop:
  assumes "fetch_loop e url cutoff tok reviews received = Some out"
  shows "e = endless_world \<Longrightarrow> cutoff \<le> 63840474000000000 \<Longrightarrow> False"
  using assms
proof (induction e url cutoff tok reviews received out
    rule: fetch_loop.raw_induct [rotated 1, consumes 1])
  case (1 loop e url cutoff tok reviews received out)
  have "fetch_step e url cutoff tok reviews = Continue ''next'' (reviews @ [review_jane])"
    using 1(3,4)
    by (simp add: fetch_step_def endless_world_def example_world_def review_jane_def
        example_strptime_def)
  with 1(2) have "loop e url cutoff (Some ''next'') (reviews @ [review_jane])
      (received @ [session_get e url tok]) = Some out"
    by simp
  from 1(1) [OF this 1(3,4)] show False .
qed

text \<open>
  Claim C4, as stated, fails: the loop has no bound of its own, and on a feed whose
  every page holds a review of the window and names a next page,
  \<^verbatim>\<open>fetch_gmb_reviews\<close> never returns.
\<close>

theorem endless_feed_never_returns:
  "fetch_gmb_reviews endless_world ''1'' ''2'' 1 = None"
proof (cases "fetch_gmb_reviews endless_world ''1'' ''2'' 1")
  case None
  then show ?thesis .
next
  case (Some out)
  have "cutoff_date (utcnow endless_world) 1 = Inr 63840398400000000"
    by (simp add: cutoff_date_def endless_world_def example_world_def us_per_day_def
        max_datetime_def)
  with Some have "fetch_loop endless_world (reviews_url ''1'' ''2'') 63840398400000000
      None [] [] = Some out"
    by (simp add: fetch_gmb_reviews_def)
  from endless_loop [OF this] show ?thesis by simp
qed

text \<open>
  Claim C4, amended. After a page that was fetched and parsed, the pass breaks exactly
  when the page carries no \<^verbatim>\<open>nextPageToken\<close> (none, or an empty one) or none of
  its reviews lies in the time window, and goes on otherwise. Hence a feed that holds
  at most \<open>k\<close> reviews of the window, however long it is, makes
  \<^verbatim>\<open>fetch_gmb_reviews\<close> return after at most \<open>k + 1\<close> requests.
\<close>

theorem pagination_exit_and_bound:
  "(session_get e url tok = Ok200 data
      \<and> filter_reviews (strptime e) cutoff (page_reviews data) = Some filtered \<longrightarrow>
      ((\<exists>result. fetch_step e url cutoff tok reviews = Break result)
         \<longleftrightarrow> (nextPageToken data = None \<or> nextPageToken data = Some [] \<or> filtered = []))
      \<and> ((\<exists>t reviews'. fetch_step e url cutoff tok reviews = Continue t reviews')
         \<longleftrightarrow> \<not> (nextPageToken data = None \<or> nextPageToken data = Some [] \<or> filtered = [])))
   \<and> ((\<forall>n. in_window_count (strptime e) (utcnow e - days * us_per_day)
              (feed_pages e (reviews_url account_id location_id) n None) \<le> k) \<longrightarrow>
        (\<exists>received out. fetch_gmb_reviews e account_id location_id days = Some (received, out)
           \<and> length received \<le> k + 1))"
  using fetch_step_exit [of e url tok data cutoff filtered reviews]
    fetch_gmb_reviews_bounded [of e days account_id location_id k]
  by blast

lemma example_feed:
  "feed_pages example_world (reviews_url ''1'' ''2'') n None
     = take n [page_one, page_two, page_three]"
proof -
  consider "n = 0" | "n = Suc 0" | "n = Suc (Suc 0)" | "n = Suc (Suc (Suc 0))"
    | m where "n = Suc (Suc (Suc (Suc m)))"
    by (metis not0_implies_Suc)
  then show ?thesis
    by cases
      (simp_all add: example_world_def example_get_def example_url_def reviews_url_def
        normalize_account_def normalize_location_def startswith_def BASE_URL_LOCATIONS_V4_def
        page_one_def page_two_def page_three_def)
qed

lemma example_feed_count:
  "in_window_count (strptime example_world) (utcnow example_world - 1 * us_per_day)
     (take n [page_one, page_two, page_three]) \<le> 4"
proof -
  consider "n = 0" | "n = Suc 0" | "n = Suc (Suc 0)" | m where "n = Suc (Suc (Suc m))"
    by (metis not0_implies_Suc)
  then show ?thesis
    by cases
      (simp_all add: in_window_count_def in_window_def example_world_def example_strptime_def
        page_one_def page_two_def page_three_def review_jane_def review_slow_def
        review_replied_def review_blank_def review_old_def us_per_day_def)
qed

theorem pagination_exit_and_bound_witness:
  "session_get example_world example_url None = Ok200 page_one
   \<and> filter_reviews (strptime example_world) 63840398400000000 (page_reviews page_one)
       = Some [review_jane, review_replied]
   \<and> (\<exists>t reviews'. fetch_step example_world example_url 63840398400000000 None []
         = Continue t reviews')
   \<and> (\<forall>n. in_window_count (strptime example_world) (utcnow example_world - 1 * us_per_day)
           (feed_pages example_world (reviews_url ''1'' ''2'') n None) \<le> 4)
   \<and> (\<exists>received out. fetch_gmb_reviews example_world ''1'' ''2'' 1 = Some (received, out)
         \<and> length received \<le> 4 + 1)"
proof -
  have g: "session_get example_world example_url None = Ok200 page_one"
    by (simp add: example_world_def example_get_def)
  have f: "filter_reviews (strptime example_world) 63840398400000000 (page_reviews page_one)
       = Some [review_jane, review_replied]"
    by (simp add: example_world_def example_strptime_def page_one_def review_jane_def
        review_replied_def)
  have tk: "\<not> (nextPageToken page_one = None \<or> nextPageToken page_one = Some []
       \<or> [review_jane, review_replied] = [])"
    by (simp add: page_one_def)
  have feed: "\<forall>n. in_window_count (strptime example_world)
      (utcnow example_world - 1 * us_per_day)
      (feed_pages example_world (reviews_url ''1'' ''2'') n None) \<le> 4"
    unfolding example_feed using example_feed_count by blast
  from g f tk feed
    pagination_exit_and_bound [of example_world example_url None page_one 63840398400000000
      "[review_jane, review_replied]" "[]" 1 "''1''" "''2''" 4]
  show ?thesis by blast
qed

section \<open>Batches and the order of the replies\<close>

lemma range_step_bound: "j \<in> set (range_step i stop step) \<Longrightarrow> j < stop"
proof (induction i stop step rule: range_step.induct)
  case (1 i stop step)
  show ?case
  proof (cases "0 < step \<and> i < stop")
    case True
    with "1.prems" have "j = i \<or> j \<in> set (range_step (i + step) stop step)"
      by (subst (asm) range_step.simps) simp
    with True "1.IH" show ?thesis by blast
  next
    case False
    with "1.prems" show ?thesis by (subst (asm) range_step.simps) simp
  qed
qed

text \<open>The slices taken at the start indices from \<open>i\<close> on make up the list from
  \<open>i\<close> on.\<close>

lemma concat_slices:
  "0 < n \<Longrightarrow>
     concat (map (\<lambda>j. take n (drop j xs)) (range_step i (length xs) n)) = drop i xs"
proof (induction i "length xs" n rule: range_step.induct)
  case (1 i step)
  show ?case
  proof (cases "i < length xs")
    case True
    with "1.prems" have "range_step i (length xs) step
        = i # range_step (i + step) (length xs) step"
      by (subst range_step.simps) simp
    moreover have "concat (map (\<lambda>j. take step (drop j xs))
        (range_step (i + step) (length xs) step)) = drop (i + step) xs"
      using "1.hyps" "1.prems" True by simp
    moreover have "take step (drop i xs) @ drop (i + step) xs = drop i xs"
      by (metis add.commute append_take_drop_id drop_drop)
    ultimately show ?thesis by simp
  next
    case False
    then have "range_step i (length xs) step = []"
      by (subst range_step.simps) simp
    with False show ?thesis by simp
  qed
qed

lemma concat_batches_of: "0 < n \<Longrightarrow> concat (batches_of xs n) = xs"
  using concat_slices [of n xs 0] by (simp add: batches_of_def)

lemma batches_of_size:
  assumes "0 < n" and "b \<in> set (batches_of xs n)"
  shows "b \<noteq> [] \<and> length b \<le> n"
proof -
  from assms(2) obtain i where i: "i \<in> set (range_step 0 (length xs) n)"
    and b: "b = take n (drop i xs)"
    by (auto simp: batches_of_def)
  from range_step_bound [OF i] assms(1) b show ?thesis by simp
qed

text \<open>The loop adds the replies of the batches, batch after batch.\<close>

lemma generate_loop_concat:
  "generate_loop e reviews n idxs all_replies
     = all_replies @ concat (map (\<lambda>i. batch_replies e (i, take n (drop i reviews))) idxs)"
  by (induction idxs arbitrary: all_replies) (auto simp: batch_replies_def split: sum.splits)

lemma zip_batches_of:
  "zip (range_step 0 (length xs) n) (batches_of xs n)
     = map (\<lambda>i. (i, take n (drop i xs))) (range_step 0 (length xs) n)"
  by (simp add: batches_of_def zip_map2 zip_same_conv_map)

lemma generate_as_concat:
  "batch_size \<noteq> 0 \<Longrightarrow>
     generate_review_replies_batch e reviews batch_size
       = Inr (concat (map (batch_replies e)
                (zip (range_step 0 (length reviews) (nat batch_size))
                     (batches_of reviews (nat batch_size)))))"
  by (simp add: generate_review_replies_batch_def generate_loop_concat zip_batches_of
      comp_def)

text \<open>
  Claim C8. For a positive \<open>batch_size\<close> the batches are consecutive slices of the
  input: each is non-empty and holds at most \<open>batch_size\<close> reviews, and their
  concatenation is the input. The result is the replies of the first batch, in their
  order, then those of the second, and so on.
\<close>

theorem batches_partition_and_order:
  assumes "0 < batch_size"
  shows "concat (batches_of reviews (nat batch_size)) = reviews
       \<and> (\<forall>b\<in>set (batches_of reviews (nat batch_size)).
             b \<noteq> [] \<and> int (length b) \<le> batch_size)
       \<and> generate_review_replies_batch e reviews batch_size
           = Inr (concat (map (batch_replies e)
                    (zip (range_step 0 (length reviews) (nat batch_size))
                         (batches_of reviews (nat batch_size)))))"
proof -
  from assms have n: "0 < nat batch_size" by simp
  have "b \<noteq> [] \<and> int (length b) \<le> batch_size"
    if "b \<in> set (batches_of reviews (nat batch_size))" for b
    using batches_of_size [OF n that] assms by auto
  moreover from assms have "batch_size \<noteq> 0" by simp
  ultimately show ?thesis
    using concat_batches_of [OF n] generate_as_concat by blast
qed

theorem batches_partition_and_order_witness:
  "(0::int) < 2
   \<and> batches_of [review_jane, review_slow, review_old] (nat 2)
       = [[review_jane, review_slow], [review_old]]
   \<and> concat (batches_of [review_jane, review_slow, review_old] (nat 2))
       = [review_jane, review_slow, review_old]
   \<and> generate_review_replies_batch ordered_world [review_jane, review_slow, review_old] 2
       = Inr (concat (map (batch_replies ordered_world)
                (zip (range_step 0 (length [review_jane, review_slow, review_old]) (nat 2))
                     (batches_of [review_jane, review_slow, review_old] (nat 2)))))
   \<and> generate_review_replies_batch ordered_world [review_jane, review_slow, review_old] 2
       = Inr [draft_thanks, draft_sorry, draft_noted]"
proof -
  have pos: "(0::int) < 2" by simp
  have b: "batches_of [review_jane, review_slow, review_old] (nat 2)
       = [[review_jane, review_slow], [review_old]]"
    by code_simp
  have g: "generate_review_replies_batch ordered_world [review_jane, review_slow, review_old] 2
       = Inr [draft_thanks, draft_sorry, draft_noted]"
    by code_simp
  from pos b g
    batches_partition_and_order [OF pos, of "[review_jane, review_slow, review_old]" ordered_world]
  show ?thesis by simp
qed

section \<open>The replies of one batch\<close>

lemma batch_replies_cases:
  "batch_replies e (i, batch) = []
   \<or> (\<exists>content parsed.
         chat_completion e (build_prompt e i batch) = Some content
         \<and> json_loads e (strip_code_fence (strip content)) = Some parsed
         \<and> py_iter parsed = Some (batch_replies e (i, batch))
         \<and> list_all valid_reply (batch_replies e (i, batch)))"
proof (cases "generate_batch e (build_prompt e i batch)")
  case (Inl err)
  then show ?thesis by (simp add: batch_replies_def)
next
  case (Inr replies)
  then have "batch_replies e (i, batch) = replies" by (simp add: batch_replies_def)
  moreover from Inr have "\<exists>content parsed.
         chat_completion e (build_prompt e i batch) = Some content
         \<and> json_loads e (strip_code_fence (strip content)) = Some parsed
         \<and> py_iter parsed = Some replies \<and> list_all valid_reply replies"
    by (auto simp: generate_batch_def split: option.splits if_splits)
  ultimately show ?thesis by simp
qed

lemma batch_replies_valid: "list_all valid_reply (batch_replies e b)"
  using batch_replies_cases [of e "fst b" "snd b"] by auto

lemma generate_valid:
  assumes "batch_size \<noteq> 0"
  shows "\<exists>replies. generate_review_replies_batch e reviews batch_size = Inr replies
           \<and> list_all valid_reply replies"
proof -
  have "list_all valid_reply (concat (map (batch_replies e) bs))" for bs
    by (induction bs) (simp_all add: batch_replies_valid)
  with generate_as_concat [OF assms] show ?thesis by blast
qed

text \<open>
  Claim C2, as stated, fails: the code checks neither how many replies a batch brings
  nor what their \<^verbatim>\<open>review_id\<close> values are. Here a batch of one review, with id
  \<open>r1\<close>, brings two replies, both for a review \<open>x\<close>.
\<close>

theorem drafts_unchecked_example:
  "reviewId review_jane = Some ''r1''
   \<and> generate_review_replies_batch doubling_world [review_jane] 10
       = Inr [JObj [(''review_id'', JStr ''x''), (''reply_text'', JStr ''a'')],
              JObj [(''review_id'', JStr ''x''), (''reply_text'', JStr ''b'')]]"
  by code_simp

text \<open>
  Claim C2, amended. A batch adds either no reply at all, or every element of the
  parsed response, each of them a dictionary that has the keys \<^verbatim>\<open>review_id\<close> and
  \<^verbatim>\<open>reply_text\<close>; their number and their \<^verbatim>\<open>review_id\<close> values are not
  checked. No exception of a batch leaves the call: for a batch size other than 0 the
  call returns a list, of such dictionaries.
\<close>

theorem batch_drafts_parsed_or_none:
  "(batch_replies e (i, batch) = []
    \<or> (\<exists>content parsed.
          chat_completion e (build_prompt e i batch) = Some content
          \<and> json_loads e (strip_code_fence (strip content)) = Some parsed
          \<and> py_iter parsed = Some (batch_replies e (i, batch))
          \<and> list_all valid_reply (batch_replies e (i, batch))))
   \<and> (batch_size \<noteq> 0 \<longrightarrow>
        (\<exists>replies. generate_review_replies_batch e reviews batch_size = Inr replies
           \<and> list_all valid_reply replies))"
  using batch_replies_cases [of e i batch] generate_valid [of batch_size e reviews]
  by blast

theorem batch_drafts_parsed_or_none_witness:
  "batch_replies silent_world (0, [review_jane, review_slow]) = []
   \<and> batch_replies example_world (0, [review_jane, review_slow]) = [draft_thanks, draft_sorry]
   \<and> (10::int) \<noteq> 0
   \<and> (\<exists>replies. generate_review_replies_batch example_world [review_jane, review_slow] 10
          = Inr replies \<and> list_all valid_reply replies)"
proof -
  have a: "batch_replies silent_world (0, [review_jane, review_slow]) = []"
    by code_simp
  have b: "batch_replies example_world (0, [review_jane, review_slow])
      = [draft_thanks, draft_sorry]"
    by code_simp
  have c: "(10::int) \<noteq> 0" by simp
  from a b c
    batch_drafts_parsed_or_none [of example_world 0 "[review_jane, review_slow]" 10
      "[review_jane, review_slow]"]
  show ?thesis by blast
qed

section \<open>Stripping\<close>

lemma strip_leading:
  assumes "list_all isspace ws"
  shows "strip (ws @ s) = strip s"
proof -
  have "dropWhile isspace (ws @ s) = dropWhile isspace s"
  proof (rule dropWhile_append2)
    fix x
    assume "x \<in> set ws"
    with assms show "isspace x" by (simp add: list_all_iff)
  qed
  then show ?thesis by (simp add: strip_def)
qed

lemma strip_trailing:
  assumes "list_all isspace ws"
  shows "strip (s @ ws) = strip s"
proof (cases "\<exists>c\<in>set s. \<not> isspace c")
  case True
  then obtain c where "c \<in> set s" and "\<not> isspace c" by blast
  then have "dropWhile isspace (s @ ws) = dropWhile isspace s @ ws"
    by (rule dropWhile_append1)
  moreover have "dropWhile isspace (rev ws @ xs) = dropWhile isspace xs" for xs
  proof (rule dropWhile_append2)
    fix x
    assume "x \<in> set (rev ws)"
    with assms show "isspace x" by (simp add: list_all_iff)
  qed
  ultimately show ?thesis by (simp add: strip_def)
next
  case False
  then have "dropWhile isspace (s @ ws) = []" and "dropWhile isspace s = []"
    using assms by (auto simp: dropWhile_eq_Nil_conv list_all_iff)
  then show ?thesis by (simp only: strip_def)
qed

lemma strip_keeps:
  assumes "s \<noteq> []" and "\<not> isspace (hd s)" and "\<not> isspace (last s)"
  shows "strip s = s"
proof -
  from assms(1,2) have "dropWhile isspace s = s"
    by (cases s) simp_all
  moreover from assms(1,3) have "dropWhile isspace (rev s) = rev s"
    by (cases "rev s") (simp_all add: last_rev [symmetric] hd_rev)
  ultimately show ?thesis by (simp add: strip_def)
qed

lemma strip_ends:
  assumes "strip c = c" and "c \<noteq> []"
  shows "\<not> isspace (hd c) \<and> \<not> isspace (last c)"
proof -
  let ?d = "dropWhile isspace c"
  from assms have eq: "rev (dropWhile isspace (rev ?d)) = c" by (simp add: strip_def)
  have "length (dropWhile isspace (rev ?d)) \<le> length ?d"
    by (metis length_dropWhile_le length_rev)
  moreover have "length ?d \<le> length c" by (rule length_dropWhile_le)
  moreover from eq have "length (dropWhile isspace (rev ?d)) = length c"
    by (metis length_rev)
  ultimately have len: "length ?d = length c" by simp
  have d: "?d = c"
    by (metis len append_eq_append_conv append_Nil takeWhile_dropWhile_id length_0_conv
        length_append add_cancel_left_left)
  with eq have r: "dropWhile isspace (rev c) = rev c" by (metis rev_rev_ident)
  from d assms(2) have "\<not> isspace (hd c)" by (metis hd_dropWhile)
  moreover from r assms(2) have "\<not> isspace (last c)"
    by (metis hd_dropWhile hd_rev rev_is_Nil_conv)
  ultimately show ?thesis by simp
qed

text \<open>
  A fence with the tag \<^verbatim>\<open>json\<close> is removed, whatever it holds: the content, with the
  whitespace around it dropped, is what \<^verbatim>\<open>json.loads\<close> is given.
\<close>

lemma tagged_fence_removed:
  assumes "list_all isspace ws1" and "list_all isspace ws2" and "strip c = c"
  shows "strip_code_fence (strip (''```json'' @ ws1 @ c @ ws2 @ ''```'')) = c"
proof -
  let ?raw = "''```json'' @ ws1 @ c @ ws2 @ ''```''"
  have tick: "\<not> isspace (CHR 0x60)" by (simp add: isspace_def)
  have "strip ?raw = ?raw"
    by (rule strip_keeps) (simp_all add: tick)
  moreover have "startswith ?raw ''```json''" by (simp add: startswith_def)
  moreover have "drop 7 ?raw = ws1 @ c @ ws2 @ ''```''" by simp
  ultimately have first: "strip_code_fence (strip ?raw)
      = (let raw1 = strip (c @ ws2 @ ''```'')
         in if endswith raw1 ''```'' then strip (take (length raw1 - 3) raw1) else raw1)"
    using strip_leading [OF assms(1)] by (simp add: strip_code_fence_def)
  show ?thesis
  proof (cases "c = []")
    case True
    have "strip (ws2 @ ''```'') = ''```''"
      unfolding strip_leading [OF assms(2)] by (rule strip_keeps) (simp_all add: tick)
    with True first show ?thesis
      by (simp add: endswith_def strip_def)
  next
    case False
    with strip_ends [OF assms(3)] have "\<not> isspace (hd c)" by simp
    with False have keep: "strip (c @ ws2 @ ''```'') = c @ ws2 @ ''```''"
      by (intro strip_keeps) (simp_all add: tick)
    have "endswith (c @ ws2 @ ''```'') ''```''" by (simp add: endswith_def)
    moreover have "take (length (c @ ws2 @ ''```'') - 3) (c @ ws2 @ ''```'') = c @ ws2"
      by simp
    moreover have "strip (c @ ws2) = c"
      using strip_trailing [OF assms(2), of c] assms(3) by simp
    ultimately show ?thesis using first keep by (simp add: Let_def)
  qed
qed

section \<open>Code fences\<close>

text \<open>
  Claim C9 fails on the code for a fence without a language tag: only a leading
  \<^verbatim>\<open>```json\<close> is removed. With the tag the fenced content is what gets parsed
  (\<open>tagged_fence_removed\<close>); without it the closing fence goes and the opening
  fence stays, the rest is not JSON, and the replies of the batch are lost.
\<close>

theorem untagged_fence_left_in_place:
  \<open>strip_code_fence (strip (''```json'' @ [CHR 0x0A]
       @ ''[{"review_id":"r1","reply_text":"Thanks"}]'' @ [CHR 0x0A] @ ''```''))
     = ''[{"review_id":"r1","reply_text":"Thanks"}]''
   \<and> strip_code_fence (strip (''```'' @ [CHR 0x0A]
       @ ''[{"review_id":"r1","reply_text":"Thanks"}]'' @ [CHR 0x0A] @ ''```''))
     = ''```'' @ [CHR 0x0A] @ ''[{"review_id":"r1","reply_text":"Thanks"}]''
   \<and> generate_batch untagged_world (build_prompt untagged_world 0 [review_jane])
     = Inl JSONDecodeError
   \<and> generate_review_replies_batch untagged_world [review_jane] 10 = Inr []\<close>
  by code_simp

section \<open>The publish loop\<close>

text \<open>The calls made are those of a prefix of the pairs, in order; the loop ends
  without an exception only after the last pair.\<close>

lemma publish_loop_prefix:
  "publish_loop e a l ps posted = (posted', res) \<Longrightarrow>
     \<exists>n\<le>length ps. map Some posted' = map Some posted @ map pair_call (take n ps)
       \<and> (res = None \<longrightarrow> n = length ps)"
proof (induction ps arbitrary: posted)
  case Nil
  then show ?case by simp
next
  case (Cons p ps)
  obtain r reply where p: "p = (r, reply)" by (cases p)
  show ?case
  proof (cases "pair_call p")
    case None
    with Cons.prems p have "posted' = posted \<and> res \<noteq> None"
      by (auto simp: pair_call_def split: option.splits sum.splits)
    then show ?thesis by (intro exI [of _ 0]) auto
  next
    case (Some c)
    then obtain review_id reply_text where c: "c = (review_id, reply_text)"
      and rid: "reviewId r = Some review_id"
      and rtext: "get_item reply ''reply_text'' = Inr reply_text"
      using p by (auto simp: pair_call_def split: option.splits sum.splits)
    show ?thesis
    proof (cases "post_review_reply e a l review_id reply_text")
      case (Some err)
      with p rid rtext
      have "publish_loop e a l (p # ps) posted = (posted @ [c], Some err)"
        by (simp add: c)
      with Cons.prems have "posted' = posted @ [c] \<and> res \<noteq> None"
        by auto
      with \<open>pair_call p = Some c\<close> show ?thesis
        by (intro exI [of _ "Suc 0"]) auto
    next
      case None
      with Cons.prems p rid rtext
      have "publish_loop e a l ps (posted @ [c]) = (posted', res)"
        by (simp add: c)
      from Cons.IH [OF this] obtain n where "n \<le> length ps"
        and "map Some posted' = map Some (posted @ [c]) @ map pair_call (take n ps)"
        and "res = None \<longrightarrow> n = length ps"
        by blast
      with \<open>pair_call p = Some c\<close> show ?thesis
        by (intro exI [of _ "Suc n"]) auto
    qed
  qed
qed

lemma publish_loop_ok:
  "list_all (publish_ok e a l) ps \<Longrightarrow>
     publish_loop e a l ps posted = (posted @ List.map_filter pair_call ps, None)"
proof (induction ps arbitrary: posted)
  case Nil
  then show ?case by (simp add: List.map_filter_simps)
next
  case (Cons p ps)
  obtain r reply where p: "p = (r, reply)" by (cases p)
  from Cons.prems obtain review_id reply_text where
    c: "pair_call p = Some (review_id, reply_text)"
    and put: "session_put e (reply_url a l review_id) reply_text"
    by (auto simp: publish_ok_def split: option.splits)
  from c p have "reviewId r = Some review_id"
    and "get_item reply ''reply_text'' = Inr reply_text"
    by (auto simp: pair_call_def split: option.splits sum.splits)
  moreover from Cons.prems have "list_all (publish_ok e a l) ps" by simp
  note Cons.IH [OF this, of "posted @ [(review_id, reply_text)]"]
  ultimately show ?case using p c put
    by (simp add: post_review_reply_def List.map_filter_simps)
qed

lemma publish_loop_failure:
  assumes "list_all (publish_ok e a l) before"
    and "pair_call p = Some (review_id, reply_text)"
    and "\<not> session_put e (reply_url a l review_id) reply_text"
  shows "publish_loop e a l (before @ p # after) posted
           = (posted @ List.map_filter pair_call before @ [(review_id, reply_text)],
              Some (RuntimeError ''Failed to post reply''))"
  using assms(1)
proof (induction before arbitrary: posted)
  case Nil
  obtain r reply where p: "p = (r, reply)" by (cases p)
  from assms(2) p have "reviewId r = Some review_id"
    and "get_item reply ''reply_text'' = Inr reply_text"
    by (auto simp: pair_call_def split: option.splits sum.splits)
  with p assms(3) show ?case
    by (simp add: post_review_reply_def List.map_filter_simps)
next
  case (Cons q before)
  obtain r reply where q: "q = (r, reply)" by (cases q)
  from Cons.prems obtain rid rtext where
    c: "pair_call q = Some (rid, rtext)" and put: "session_put e (reply_url a l rid) rtext"
    by (auto simp: publish_ok_def split: option.splits)
  from c q have "reviewId r = Some rid" and "get_item reply ''reply_text'' = Inr rtext"
    by (auto simp: pair_call_def split: option.splits sum.splits)
  moreover from Cons.prems have "list_all (publish_ok e a l) before" by simp
  note Cons.IH [OF this, of "posted @ [(rid, rtext)]"]
  ultimately show ?case using q c put
    by (simp add: post_review_reply_def List.map_filter_simps)
qed

lemma generate_nothing: "generate_review_replies_batch e [] 10 = Inr []"
  by (simp add: generate_review_replies_batch_def range_step.simps)

lemma generate_ten: "\<exists>replies. generate_review_replies_batch e reviews 10 = Inr replies"
  by (simp add: generate_review_replies_batch_def)

lemma reply_to_unreplied_reviews_publish:
  assumes "generate_review_replies_batch e (unreplied_reviews reviews) 10 = Inr replies"
  shows "reply_to_unreplied_reviews e reviews a l
           = publish_loop e a l (zip (unreplied_reviews reviews) replies) []"
  using assms by (simp add: reply_to_unreplied_reviews_def)

text \<open>
  Claim C1, as stated, fails: \<^verbatim>\<open>post_review_reply\<close> raises, the loop has no handler
  of its own, and the handler around it raises again. Here the platform refuses the
  reply to \<open>r1\<close>, the first of two pairs, and no call is made for \<open>r2\<close>.
\<close>

theorem publish_failure_stops_loop_example:
  "unreplied_reviews [review_jane, review_replied, review_slow, review_blank]
     = [review_jane, review_slow]
   \<and> generate_review_replies_batch refusing_world [review_jane, review_slow] 10
       = Inr [draft_thanks, draft_sorry]
   \<and> reply_to_unreplied_reviews refusing_world
         [review_jane, review_replied, review_slow, review_blank] ''1'' ''2''
       = ([(''r1'', JStr ''Thanks'')], Some (RuntimeError ''Failed to post reply''))"
  by code_simp

text \<open>
  Claim C1, amended. A publish failure for one review ends the loop: the calls made
  are those of the pairs before it, which succeeded, and the failing one; no later
  pair gets a call, whatever the later pairs are. The exception leaves
  \<^verbatim>\<open>reply_to_unreplied_reviews\<close>, and the entry point answers 500.
\<close>

theorem publish_failure_aborts_remaining:
  assumes "generate_review_replies_batch e (unreplied_reviews reviews) 10 = Inr replies"
    and "zip (unreplied_reviews reviews) replies = before @ p # after"
    and "list_all (publish_ok e a l) before"
    and "pair_call p = Some (review_id, reply_text)"
    and "\<not> session_put e (reply_url a l review_id) reply_text"
  shows "reply_to_unreplied_reviews e reviews a l
           = (List.map_filter pair_call before @ [(review_id, reply_text)],
              Some (RuntimeError ''Failed to post reply''))
       \<and> (\<forall>days d received.
             int_of_str e days = Some d
               \<and> fetch_gmb_reviews e a l d = Some (received, Inr reviews) \<longrightarrow>
             process_reviews e a l days
               = Some (\<lparr>status = 500, body = ErrorRaised (RuntimeError ''Failed to post reply''),
                        cors = True\<rparr>,
                       List.map_filter pair_call before @ [(review_id, reply_text)]))"
proof -
  have run: "reply_to_unreplied_reviews e reviews a l
           = (List.map_filter pair_call before @ [(review_id, reply_text)],
              Some (RuntimeError ''Failed to post reply''))"
    unfolding reply_to_unreplied_reviews_publish [OF assms(1)] assms(2)
    using publish_loop_failure [OF assms(3-5), of after "[]"] by simp
  then show ?thesis by (simp add: process_reviews_def)
qed

theorem publish_failure_aborts_remaining_witness:
  "zip (unreplied_reviews [review_jane, review_replied, review_slow, review_blank])
       [draft_thanks, draft_sorry]
     = [] @ (review_jane, draft_thanks) # [(review_slow, draft_sorry)]
   \<and> \<not> session_put refusing_world (reply_url ''1'' ''2'' ''r1'') (JStr ''Thanks'')
   \<and> reply_to_unreplied_reviews refusing_world
         [review_jane, review_replied, review_slow, review_blank] ''1'' ''2''
       = ([(''r1'', JStr ''Thanks'')], Some (RuntimeError ''Failed to post reply''))
   \<and> process_reviews refusing_world ''1'' ''2'' ''1''
       = Some (\<lparr>status = 500, body = ErrorRaised (RuntimeError ''Failed to post reply''),
                cors = True\<rparr>, [(''r1'', JStr ''Thanks'')])"
proof -
  let ?reviews = "[review_jane, review_replied, review_slow, review_blank]"
  have g: "generate_review_replies_batch refusing_world (unreplied_reviews ?reviews) 10
      = Inr [draft_thanks, draft_sorry]"
    by code_simp
  have z: "zip (unreplied_reviews ?reviews) [draft_thanks, draft_sorry]
      = [] @ (review_jane, draft_thanks) # [(review_slow, draft_sorry)]"
    by code_simp
  have ok: "list_all (publish_ok refusing_world ''1'' ''2'') []"
    by simp
  have c: "pair_call (review_jane, draft_thanks) = Some (''r1'', JStr ''Thanks'')"
    by code_simp
  have no: "\<not> session_put refusing_world (reply_url ''1'' ''2'' ''r1'') (JStr ''Thanks'')"
    by (simp add: refusing_world_def)
  have d: "int_of_str refusing_world ''1'' = Some 1"
    by code_simp
  have f: "fetch_gmb_reviews refusing_world ''1'' ''2'' 1
      = Some ([Ok200 page_one, Ok200 page_two, Ok200 page_three], Inr ?reviews)"
    by code_simp
  from publish_failure_aborts_remaining [OF g z ok c no] d f z no show ?thesis
    by (simp add: List.map_filter_simps)
qed

section \<open>Pairing and the reported count\<close>

lemma reply_to_unreplied_reviews_done:
  assumes "reply_to_unreplied_reviews e reviews a l = (posted, None)"
  shows "\<exists>replies. generate_review_replies_batch e (unreplied_reviews reviews) 10 = Inr replies
           \<and> map Some posted = map pair_call (zip (unreplied_reviews reviews) replies)"
proof (cases "unreplied_reviews reviews = []")
  case True
  with assms have "posted = []" by (simp add: reply_to_unreplied_reviews_def)
  with True generate_nothing [of e] show ?thesis by simp
next
  case False
  from generate_ten obtain replies where
    g: "generate_review_replies_batch e (unreplied_reviews reviews) 10 = Inr replies"
    by blast
  from assms have "publish_loop e a l (zip (unreplied_reviews reviews) replies) []
      = (posted, None)"
    unfolding reply_to_unreplied_reviews_publish [OF g] .
  from publish_loop_prefix [OF this]
  have "map Some posted = map pair_call (zip (unreplied_reviews reviews) replies)"
    by auto
  with g show ?thesis by blast
qed

lemma process_reviews_200:
  assumes "process_reviews e a l days = Some (resp, posted)" and "status resp = 200"
  shows "\<exists>d received reviews. int_of_str e days = Some d
           \<and> fetch_gmb_reviews e a l d = Some (received, Inr reviews)
           \<and> reply_to_unreplied_reviews e reviews a l = (posted, None)
           \<and> body resp = Processed (length (unreplied_reviews reviews))"
  using assms
  by (auto simp: process_reviews_def split: option.splits sum.splits prod.splits)

lemma reply_reviews_200:
  assumes "reply_reviews e request = Some (resp, posted)" and "status resp = 200"
  shows "\<exists>a l. arg_account_id request = Some a \<and> arg_location_id request = Some l
           \<and> process_reviews e a l (case arg_days request of None \<Rightarrow> ''1'' | Some d \<Rightarrow> d)
               = Some (resp, posted)"
  using assms
  by (auto simp: reply_reviews_def split: if_splits option.splits)

text \<open>
  Claim C5, as stated, fails in its second half: the number in the body is the number
  of eligible reviews, counted anew from the fetched list. Here the generation service
  fails, no reply is published, and the body says 2.
\<close>

theorem processed_count_exceeds_attempts:
  "reply_reviews silent_world example_request
     = Some (\<lparr>status = 200, body = Processed 2, cors = True\<rparr>, [])"
  by code_simp

text \<open>
  Claim C5, amended. In a run that answers 200, the calls of \<^verbatim>\<open>post_review_reply\<close>
  are, in order, the eligible reviews paired by position with the generated replies:
  call number \<open>i\<close> sends the \<^verbatim>\<open>reply_text\<close> of reply \<open>i\<close> to the
  \<^verbatim>\<open>reviewId\<close> of eligible review \<open>i\<close>. The number \<open>N\<close> of the body is the number
  of eligible reviews; the number of calls is the smaller of \<open>N\<close> and the number of
  replies.
\<close>

theorem positional_pairing_and_count:
  assumes "reply_reviews e request = Some (resp, posted)" and "status resp = 200"
  shows "\<exists>account_id location_id days received reviews replies.
           arg_account_id request = Some account_id
           \<and> arg_location_id request = Some location_id
           \<and> int_of_str e (case arg_days request of None \<Rightarrow> ''1'' | Some d \<Rightarrow> d) = Some days
           \<and> fetch_gmb_reviews e account_id location_id days = Some (received, Inr reviews)
           \<and> generate_review_replies_batch e (unreplied_reviews reviews) 10 = Inr replies
           \<and> map Some posted = map pair_call (zip (unreplied_reviews reviews) replies)
           \<and> body resp = Processed (length (unreplied_reviews reviews))
           \<and> length posted = min (length (unreplied_reviews reviews)) (length replies)"
proof -
  from reply_reviews_200 [OF assms] obtain a l where
    ids: "arg_account_id request = Some a" "arg_location_id request = Some l"
    and run: "process_reviews e a l (case arg_days request of None \<Rightarrow> ''1'' | Some d \<Rightarrow> d)
               = Some (resp, posted)"
    by blast
  from process_reviews_200 [OF run assms(2)] obtain d received reviews where
    d: "int_of_str e (case arg_days request of None \<Rightarrow> ''1'' | Some d \<Rightarrow> d) = Some d"
    and f: "fetch_gmb_reviews e a l d = Some (received, Inr reviews)"
    and p: "reply_to_unreplied_reviews e reviews a l = (posted, None)"
    and b: "body resp = Processed (length (unreplied_reviews reviews))"
    by blast
  from reply_to_unreplied_reviews_done [OF p] obtain replies where
    g: "generate_review_replies_batch e (unreplied_reviews reviews) 10 = Inr replies"
    and m: "map Some posted = map pair_call (zip (unreplied_reviews reviews) replies)"
    by blast
  from m have "length (map Some posted)
      = length (map pair_call (zip (unreplied_reviews reviews) replies))"
    by simp
  then have "length posted = min (length (unreplied_reviews reviews)) (length replies)"
    by simp
  with ids d f g m b show ?thesis by blast
qed

theorem positional_pairing_and_count_witness:
  "reply_reviews example_world example_request
     = Some (\<lparr>status = 200, body = Processed 2, cors = True\<rparr>,
             [(''r1'', JStr ''Thanks''), (''r2'', JStr ''Sorry'')])
   \<and> (\<exists>account_id location_id days received reviews replies.
         fetch_gmb_reviews example_world account_id location_id days
           = Some (received, Inr reviews)
         \<and> generate_review_replies_batch example_world (unreplied_reviews reviews) 10
             = Inr replies
         \<and> map Some [(''r1'', JStr ''Thanks''), (''r2'', JStr ''Sorry'')]
             = map pair_call (zip (unreplied_reviews reviews) replies)
         \<and> Processed 2 = Processed (length (unreplied_reviews reviews)))"
proof -
  have run: "reply_reviews example_world example_request
     = Some (\<lparr>status = 200, body = Processed 2, cors = True\<rparr>,
             [(''r1'', JStr ''Thanks''), (''r2'', JStr ''Sorry'')])"
    by code_simp
  have ok: "status \<lparr>status = 200, body = Processed 2, cors = True\<rparr> = 200"
    by simp
  from positional_pairing_and_count [OF run ok]
  obtain account_id location_id days received reviews replies where
    f: "fetch_gmb_reviews example_world account_id location_id days
          = Some (received, Inr reviews)"
    and g: "generate_review_replies_batch example_world (unreplied_reviews reviews) 10
          = Inr replies"
    and m: "map Some [(''r1'', JStr ''Thanks''), (''r2'', JStr ''Sorry'')]
          = map pair_call (zip (unreplied_reviews reviews) replies)"
    and b: "body \<lparr>status = 200, body = Processed 2, cors = True\<rparr>
          = Processed (length (unreplied_reviews reviews))"
    by blast
  from b have "Processed 2 = Processed (length (unreplied_reviews reviews))"
    by simp
  with f g m have "\<exists>account_id location_id days received reviews replies.
         fetch_gmb_reviews example_world account_id location_id days
           = Some (received, Inr reviews)
         \<and> generate_review_replies_batch example_world (unreplied_reviews reviews) 10
             = Inr replies
         \<and> map Some [(''r1'', JStr ''Thanks''), (''r2'', JStr ''Sorry'')]
             = map pair_call (zip (unreplied_reviews reviews) replies)
         \<and> Processed 2 = Processed (length (unreplied_reviews reviews))"
    by blast
  with run show ?thesis by (rule conjI)
qed

section \<open>The eligible set\<close>

lemma dropWhile_all_iff: "(\<forall>x\<in>set (dropWhile P xs). P x) \<longleftrightarrow> (\<forall>x\<in>set xs. P x)"
proof
  assume a: "\<forall>x\<in>set (dropWhile P xs). P x"
  have "dropWhile P xs = []"
  proof (rule ccontr)
    assume ne: "dropWhile P xs \<noteq> []"
    then have "\<not> P (hd (dropWhile P xs))" by (rule hd_dropWhile)
    moreover have "hd (dropWhile P xs) \<in> set (dropWhile P xs)" using ne by simp
    ultimately show False using a by blast
  qed
  then show "\<forall>x\<in>set xs. P x" by (simp add: dropWhile_eq_Nil_conv)
next
  assume "\<forall>x\<in>set xs. P x"
  then show "\<forall>x\<in>set (dropWhile P xs). P x"
    using set_dropWhileD by fastforce
qed

text \<open>Stripping leaves nothing exactly when every character is whitespace.\<close>

lemma strip_empty_iff: "strip s = [] \<longleftrightarrow> (\<forall>c\<in>set s. isspace c)"
proof -
  have "strip s = [] \<longleftrightarrow> (\<forall>c\<in>set (rev (dropWhile isspace s)). isspace c)"
    by (simp add: strip_def dropWhile_eq_Nil_conv)
  also have "\<dots> \<longleftrightarrow> (\<forall>c\<in>set (dropWhile isspace s). isspace c)" by simp
  also have "\<dots> \<longleftrightarrow> (\<forall>c\<in>set s. isspace c)" by (rule dropWhile_all_iff)
  finally show ?thesis .
qed

lemma is_unreplied_iff:
  "is_unreplied r \<longleftrightarrow>
     (reviewReply r = None \<or> reviewReply r = Some [])
     \<and> (\<exists>c. comment r = Some c \<and> (\<exists>ch\<in>set c. \<not> isspace ch))"
  by (cases "reviewReply r"; cases "comment r")
     (auto simp: is_unreplied_def truthy_reply_def get_comment_def strip_empty_iff)

lemma unreplied_reviews_idem: "unreplied_reviews (unreplied_reviews reviews) = unreplied_reviews reviews"
  by (simp add: unreplied_reviews_def)

lemma reply_to_unreplied_reviews_eligible_only:
  "reply_to_unreplied_reviews e reviews a l
     = reply_to_unreplied_reviews e (unreplied_reviews reviews) a l"
  unfolding reply_to_unreplied_reviews_def unreplied_reviews_idem by (rule refl)

lemma posted_of_eligible:
  assumes "c \<in> set (fst (reply_to_unreplied_reviews e reviews a l))"
  shows "\<exists>r\<in>set (unreplied_reviews reviews). reviewId r = Some (fst c)"
proof (cases "unreplied_reviews reviews = []")
  case True
  with assms show ?thesis by (simp add: reply_to_unreplied_reviews_def)
next
  case False
  from generate_ten obtain replies where
    g: "generate_review_replies_batch e (unreplied_reviews reviews) 10 = Inr replies"
    by blast
  obtain posted res where
    run: "publish_loop e a l (zip (unreplied_reviews reviews) replies) [] = (posted, res)"
    by (cases "publish_loop e a l (zip (unreplied_reviews reviews) replies) []")
  from publish_loop_prefix [OF run] obtain n where
    m: "map Some posted = map pair_call (take n (zip (unreplied_reviews reviews) replies))"
    by auto
  from assms run have "c \<in> set posted"
    unfolding reply_to_unreplied_reviews_publish [OF g] by simp
  then have "Some c \<in> set (map Some posted)" by simp
  with m obtain p where p: "p \<in> set (take n (zip (unreplied_reviews reviews) replies))"
    and c: "pair_call p = Some c"
    by auto
  from p have "p \<in> set (zip (unreplied_reviews reviews) replies)"
    by (rule in_set_takeD)
  then have "fst p \<in> set (unreplied_reviews reviews)"
    by (metis in_set_zipE prod.collapse)
  moreover from c have "reviewId (fst p) = Some (fst c)"
    by (auto simp: pair_call_def split: option.splits sum.splits)
  ultimately show ?thesis by blast
qed

text \<open>
  Claim C6. The eligible reviews are exactly those with no reply (the key
  \<^verbatim>\<open>reviewReply\<close> absent or empty) and a comment that has a character other than
  whitespace. The other reviews have no part in the run: generation and publishing
  see the eligible ones only, and every published reply goes to the id of an eligible
  review. With no eligible review the run makes no call and raises nothing, and the
  entry point answers 200 with the count 0.
\<close>

theorem eligible_set_exact:
  "unreplied_reviews reviews
     = filter (\<lambda>r. (reviewReply r = None \<or> reviewReply r = Some [])
                  \<and> (\<exists>c. comment r = Some c \<and> (\<exists>ch\<in>set c. \<not> isspace ch))) reviews
   \<and> reply_to_unreplied_reviews e reviews a l
       = reply_to_unreplied_reviews e (unreplied_reviews reviews) a l
   \<and> (\<forall>c\<in>set (fst (reply_to_unreplied_reviews e reviews a l)).
         \<exists>r\<in>set (unreplied_reviews reviews). reviewId r = Some (fst c))
   \<and> (unreplied_reviews reviews = [] \<longrightarrow>
         reply_to_unreplied_reviews e reviews a l = ([], None)
         \<and> (\<forall>days d received.
               int_of_str e days = Some d
                 \<and> fetch_gmb_reviews e a l d = Some (received, Inr reviews) \<longrightarrow>
               process_reviews e a l days
                 = Some (\<lparr>status = 200, body = Processed 0, cors = True\<rparr>, [])))"
proof -
  have flt: "unreplied_reviews reviews
     = filter (\<lambda>r. (reviewReply r = None \<or> reviewReply r = Some [])
                  \<and> (\<exists>c. comment r = Some c \<and> (\<exists>ch\<in>set c. \<not> isspace ch))) reviews"
    unfolding unreplied_reviews_def by (rule filter_cong) (simp_all add: is_unreplied_iff)
  have none: "reply_to_unreplied_reviews e reviews a l = ([], None)"
    if "unreplied_reviews reviews = []"
    using that by (simp add: reply_to_unreplied_reviews_def)
  have zero: "process_reviews e a l days
                 = Some (\<lparr>status = 200, body = Processed 0, cors = True\<rparr>, [])"
    if "unreplied_reviews reviews = []" and "int_of_str e days = Some d"
      and "fetch_gmb_reviews e a l d = Some (received, Inr reviews)" for days d received
    using that none by (simp add: process_reviews_def)
  show ?thesis
  proof (intro conjI impI allI ballI)
    show "unreplied_reviews reviews
     = filter (\<lambda>r. (reviewReply r = None \<or> reviewReply r = Some [])
                  \<and> (\<exists>c. comment r = Some c \<and> (\<exists>ch\<in>set c. \<not> isspace ch))) reviews"
      by (rule flt)
    show "reply_to_unreplied_reviews e reviews a l
       = reply_to_unreplied_reviews e (unreplied_reviews reviews) a l"
      by (rule reply_to_unreplied_reviews_eligible_only)
    show "\<exists>r\<in>set (unreplied_reviews reviews). reviewId r = Some (fst c)"
      if "c \<in> set (fst (reply_to_unreplied_reviews e reviews a l))" for c
      using that by (rule posted_of_eligible)
    show "reply_to_unreplied_reviews e reviews a l = ([], None)"
      if "unreplied_reviews reviews = []"
      using that by (rule none)
    show "process_reviews e a l days
                 = Some (\<lparr>status = 200, body = Processed 0, cors = True\<rparr>, [])"
      if "unreplied_reviews reviews = []"
        and "int_of_str e days = Some d
               \<and> fetch_gmb_reviews e a l d = Some (received, Inr reviews)"
      for days d received
      using that zero by blast
  qed
qed

theorem eligible_set_exact_witness:
  "unreplied_reviews [review_blank, review_replied, review_old] = [review_old]
   \<and> [review_old]
       = filter (\<lambda>r. (reviewReply r = None \<or> reviewReply r = Some [])
                    \<and> (\<exists>c. comment r = Some c \<and> (\<exists>ch\<in>set c. \<not> isspace ch)))
           [review_blank, review_replied, review_old]
   \<and> unreplied_reviews [review_blank, review_replied] = []
   \<and> reply_to_unreplied_reviews example_world [review_blank, review_replied] ''1'' ''2''
       = ([], None)
   \<and> fetch_gmb_reviews example_world ''1'' ''2'' 0 = Some ([Ok200 page_one], Inr [])
   \<and> process_reviews example_world ''1'' ''2'' ''0''
       = Some (\<lparr>status = 200, body = Processed 0, cors = True\<rparr>, [])"
proof -
  have one: "unreplied_reviews [review_blank, review_replied, review_old] = [review_old]"
    by code_simp
  have two: "unreplied_reviews [review_blank, review_replied] = []"
    by code_simp
  have three: "unreplied_reviews [] = []"
    by code_simp
  have d: "int_of_str example_world ''0'' = Some 0"
    by code_simp
  have f: "fetch_gmb_reviews example_world ''1'' ''2'' 0 = Some ([Ok200 page_one], Inr [])"
    by code_simp
  note selected = eligible_set_exact
    [of "[review_blank, review_replied, review_old]" example_world "''1''" "''2''",
      THEN conjunct1, unfolded one]
  note no_op = eligible_set_exact
    [of "[review_blank, review_replied]" example_world "''1''" "''2''",
      THEN conjunct2, THEN conjunct2, THEN conjunct2, THEN mp, OF two, THEN conjunct1]
  note reported = eligible_set_exact
    [of "[]" example_world "''1''" "''2''",
      THEN conjunct2, THEN conjunct2, THEN conjunct2, THEN mp, OF three, THEN conjunct2,
      THEN spec, THEN spec, THEN spec, THEN mp, OF conjI [OF d f]]
  from one selected two no_op f reported show ?thesis
    by (intro conjI)
qed

section \<open>The days parameter\<close>

lemma process_reviews_not_integer:
  "int_of_str e days = None \<Longrightarrow>
     process_reviews e a l days
       = Some (\<lparr>status = 400, body = ErrorMessage ''Days must be an integer'',
                cors = True\<rparr>, [])"
  by (simp add: process_reviews_def)

lemma process_reviews_integer:
  assumes "int_of_str e days = Some n"
    and "process_reviews e a l days = Some (resp, posted)"
  shows "(status resp = 200 \<or> status resp = 500)
       \<and> (\<exists>received out. fetch_gmb_reviews e a l n = Some (received, out))"
  using assms
  by (auto simp: process_reviews_def split: option.splits sum.splits prod.splits)

lemma reply_reviews_process:
  assumes "\<not> (development e
             \<and> (case x_forwarded_proto request of None \<Rightarrow> ''http'' | Some p \<Rightarrow> p) \<noteq> ''https'')"
    and "req_method request \<noteq> ''OPTIONS''"
    and "arg_account_id request = Some a" and "a \<noteq> []"
    and "arg_location_id request = Some l" and "l \<noteq> []"
  shows "reply_reviews e request
           = process_reviews e a l (case arg_days request of None \<Rightarrow> ''1'' | Some d \<Rightarrow> d)"
  using assms by (auto simp: reply_reviews_def)

text \<open>
  Claim C7, as stated, fails: the code checks that \<open>days\<close> is an integer and nothing
  more. Zero and a negative number are accepted, and the run goes on to fetch with
  them; here it answers 200.
\<close>

theorem zero_days_accepted:
  "int_of_str example_world ''0'' = Some 0
   \<and> reply_reviews example_world (example_request \<lparr>arg_days := Some ''0''\<rparr>)
       = Some (\<lparr>status = 200, body = Processed 0, cors = True\<rparr>, [])
   \<and> int_of_str example_world ''-3'' = Some (- 3)
   \<and> reply_reviews example_world (example_request \<lparr>arg_days := Some ''-3''\<rparr>)
       = Some (\<lparr>status = 200, body = Processed 0, cors = True\<rparr>, [])"
  by code_simp

text \<open>
  Claim C7, amended. The \<open>days\<close> parameter must be an integer, and defaults to 1. For a
  request that gets as far as the parameter (no HTTPS redirect, not a preflight, both
  identifiers given), a value that \<^verbatim>\<open>int\<close> rejects is answered with 400 and the
  message \<^verbatim>\<open>Days must be an integer\<close>, and nothing is fetched or published. Every
  integer, zero and the negative ones included, is accepted: the reviews are fetched
  with it, and the answer, when there is one, is 200 or 500, never 400.
\<close>

theorem days_must_parse:
  assumes "\<not> (development e
             \<and> (case x_forwarded_proto request of None \<Rightarrow> ''http'' | Some p \<Rightarrow> p) \<noteq> ''https'')"
    and "req_method request \<noteq> ''OPTIONS''"
    and "arg_account_id request = Some a" and "a \<noteq> []"
    and "arg_location_id request = Some l" and "l \<noteq> []"
    and "days = (case arg_days request of None \<Rightarrow> ''1'' | Some d \<Rightarrow> d)"
  shows "(int_of_str e days = None \<longrightarrow>
            reply_reviews e request
              = Some (\<lparr>status = 400, body = ErrorMessage ''Days must be an integer'',
                       cors = True\<rparr>, []))
       \<and> (\<forall>n resp posted.
             int_of_str e days = Some n \<and> reply_reviews e request = Some (resp, posted) \<longrightarrow>
             (status resp = 200 \<or> status resp = 500)
             \<and> (\<exists>received out. fetch_gmb_reviews e a l n = Some (received, out)))"
proof -
  have run: "reply_reviews e request = process_reviews e a l days"
    unfolding assms(7) using assms(1-6) by (rule reply_reviews_process)
  show ?thesis
    unfolding run
    using process_reviews_not_integer [of e days a l] process_reviews_integer [of e days _ a l]
    by blast
qed

theorem days_must_parse_witness:
  "int_of_str example_world ''abc'' = None
   \<and> reply_reviews example_world (example_request \<lparr>arg_days := Some ''abc''\<rparr>)
       = Some (\<lparr>status = 400, body = ErrorMessage ''Days must be an integer'',
                cors = True\<rparr>, [])
   \<and> int_of_str example_world ''1'' = Some 1
   \<and> reply_reviews example_world example_request
       = Some (\<lparr>status = 200, body = Processed 2, cors = True\<rparr>,
               [(''r1'', JStr ''Thanks''), (''r2'', JStr ''Sorry'')])
   \<and> (\<exists>received out. fetch_gmb_reviews example_world ''1'' ''2'' 1 = Some (received, out))"
proof -
  have gate: "\<not> (development example_world
      \<and> (case x_forwarded_proto r of None \<Rightarrow> ''http'' | Some p \<Rightarrow> p) \<noteq> ''https'')" for r
    by (simp add: example_world_def)
  have m: "req_method (example_request \<lparr>arg_days := Some ''abc''\<rparr>) \<noteq> ''OPTIONS''"
    "req_method example_request \<noteq> ''OPTIONS''"
    by (simp_all add: example_request_def)
  have a: "arg_account_id (example_request \<lparr>arg_days := Some ''abc''\<rparr>) = Some ''1''"
    "arg_account_id example_request = Some ''1''"
    by (simp_all add: example_request_def)
  have l: "arg_location_id (example_request \<lparr>arg_days := Some ''abc''\<rparr>) = Some ''2''"
    "arg_location_id example_request = Some ''2''"
    by (simp_all add: example_request_def)
  have ne: "''1'' \<noteq> []" "''2'' \<noteq> []" by simp_all
  have d: "''abc'' = (case arg_days (example_request \<lparr>arg_days := Some ''abc''\<rparr>) of
      None \<Rightarrow> ''1'' | Some d \<Rightarrow> d)"
    "''1'' = (case arg_days example_request of None \<Rightarrow> ''1'' | Some d \<Rightarrow> d)"
    by (simp_all add: example_request_def)
  have bad: "int_of_str example_world ''abc'' = None"
    by code_simp
  have good: "int_of_str example_world ''1'' = Some 1"
    by code_simp
  have run: "reply_reviews example_world example_request
       = Some (\<lparr>status = 200, body = Processed 2, cors = True\<rparr>,
               [(''r1'', JStr ''Thanks''), (''r2'', JStr ''Sorry'')])"
    by code_simp
  note rejected = days_must_parse
    [OF gate m(1) a(1) ne(1) l(1) ne(2) d(1), THEN conjunct1, THEN mp, OF bad]
  note accepted = days_must_parse
    [OF gate m(2) a(2) ne(1) l(2) ne(2) d(2), THEN conjunct2, THEN spec, THEN spec,
      THEN spec, THEN mp, OF conjI [OF good run], THEN conjunct2]
  from bad rejected good run accepted show ?thesis
    by (intro conjI)
qed

end
